theory Spec2Isabelle
  imports Main "HOL-Library.Signed_Division"
begin

section \<open>The file navigator of \<^verbatim>\<open>src/index.ts\<close>\<close>

text \<open>
  A shallow embedding of the navigation server: the per-file navigator state, the line
  reader, the window fetcher, the screen formatter and the six tools of the request
  handler. Numbers are \<open>int\<close> (the handler only adds, subtracts and compares them),
  strings are \<open>string\<close>, the state table is a map from file names to states, and every
  exception of the source is a value of \<open>error\<close>. The handler returns its result together
  with the state table, since the source mutates the table's entries in place and an
  exception does not undo what was written before it.
\<close>

subsection \<open>Text helpers of the runtime\<close>

definition nl :: string where
  "nl = [CHR 0x0A]"

text \<open>\<^verbatim>\<open>Number.prototype.toString\<close> on integers: decimal digits, a minus sign when negative.\<close>

definition digit :: "nat \<Rightarrow> char" where
  "digit d = char_of (48 + d)"

function natToString :: "nat \<Rightarrow> string" where
  "natToString n = (if n < 10 then [digit n] else natToString (n div 10) @ [digit (n mod 10)])"
  by pat_completeness auto
termination
  by (relation "measure id") auto

declare natToString.simps [simp del]

definition toString :: "int \<Rightarrow> string" where
  "toString i = (if i < 0 then CHR ''-'' # natToString (nat (- i)) else natToString (nat i))"

text \<open>\<^verbatim>\<open>s.padStart(n, ' ')\<close>\<close>

definition padStart :: "nat \<Rightarrow> string \<Rightarrow> string" where
  "padStart n s = replicate (n - length s) CHR '' '' @ s"

text \<open>\<^verbatim>\<open>rows.join(sep)\<close>\<close>

fun join :: "string \<Rightarrow> string list \<Rightarrow> string" where
  "join sep [] = []"
| "join sep [x] = x"
| "join sep (x # y # ys) = x @ sep @ join sep (y # ys)"

text \<open>\<^verbatim>\<open>s.split('\n')\<close>: the pieces between line feeds; never an empty list.\<close>

fun split :: "string \<Rightarrow> string list" where
  "split [] = [[]]"
| "split (c # cs) =
     (if c = CHR 0x0A then [] # split cs
      else (c # hd (split cs)) # tl (split cs))"

subsection \<open>Errors\<close>

datatype ErrorCode = InvalidParams | MethodNotFound

text \<open>
  \<open>ENOENT\<close> is the error of opening a missing file, \<open>SyntaxError\<close> the one of the
  regular expression constructor, \<open>TypeError\<close> the one of reading a field of
  \<^verbatim>\<open>undefined\<close> (an array read out of range, then \<^verbatim>\<open>.line\<close>).
\<close>

datatype error =
    McpError ErrorCode string
  | ENOENT
  | SyntaxError string
  | TypeError

subsection \<open>The line reader\<close>

text \<open>
  A file is the list of chunks its read stream delivers; the file system maps a path to
  the file it names, if any, and stays the same while a request is handled. Every pass
  over a file (\<open>readFileLines\<close>, and with it \<open>getTotalLines\<close> and \<open>getLines\<close>) opens the file
  again and fails with \<open>ENOENT\<close> when there is none.
\<close>

type_synonym fileSystem = "string \<Rightarrow> string list option"

text \<open>The \<^verbatim>\<open>for await (const chunk of stream)\<close> loop of \<^verbatim>\<open>readFileLines\<close>, from a buffer.\<close>

fun readChunks :: "string \<Rightarrow> string list \<Rightarrow> string list" where
  "readChunks buffer [] = (if buffer \<noteq> [] then [buffer] else [])"
| "readChunks buffer (chunk # rest) =
     (let lines = split (buffer @ chunk)
      in butlast lines @ readChunks (last lines) rest)"

definition readFileLines :: "fileSystem \<Rightarrow> string \<Rightarrow> error + string list" where
  "readFileLines fs filePath =
     (case fs filePath of
        None \<Rightarrow> Inl ENOENT
      | Some chunks \<Rightarrow> Inr (readChunks [] chunks))"

definition getTotalLines :: "fileSystem \<Rightarrow> string \<Rightarrow> error + int" where
  "getTotalLines fs filePath =
     (case readFileLines fs filePath of
        Inl e \<Rightarrow> Inl e
      | Inr ls \<Rightarrow> Inr (int (length ls)))"

subsection \<open>The window fetcher\<close>

datatype screenLine = ScreenLine (lineNumber: int) (content: string)

text \<open>
  The loop of \<^verbatim>\<open>getLines\<close>: \<open>acc\<close> is the array \<^verbatim>\<open>lines\<close> built so far, \<open>cur\<close> the
  counter \<^verbatim>\<open>currentLine\<close>; the loop leaves at the first line at or past
  \<open>startLine + count\<close>.
\<close>

fun getLinesLoop :: "int \<Rightarrow> int \<Rightarrow> int \<Rightarrow> screenLine list \<Rightarrow> string list \<Rightarrow> screenLine list" where
  "getLinesLoop startLine count cur acc [] = acc"
| "getLinesLoop startLine count cur acc (l # rest) =
     (let acc' = (if cur \<ge> startLine \<and> cur < startLine + count
                  then acc @ [ScreenLine cur l] else acc)
      in if cur \<ge> startLine + count then acc'
         else getLinesLoop startLine count (cur + 1) acc' rest)"

definition getLines :: "fileSystem \<Rightarrow> string \<Rightarrow> int \<Rightarrow> int \<Rightarrow> error + screenLine list" where
  "getLines fs filePath startLine count =
     (case readFileLines fs filePath of
        Inl e \<Rightarrow> Inl e
      | Inr ls \<Rightarrow> Inr (getLinesLoop startLine count 1 [] ls))"

subsection \<open>The screen formatter\<close>

text \<open>The configuration constant of the source.\<close>

definition DEFAULT_SCREEN_HEIGHT :: int where
  "DEFAULT_SCREEN_HEIGHT = 30"

text \<open>
  The rows of \<^verbatim>\<open>formatScreen\<close> for a window that is not empty: the numbered lines, and
  when the last of them is at or past \<open>totalLines\<close>, one filler row for every index from
  \<open>length lines\<close> up to \<open>DEFAULT_SCREEN_HEIGHT\<close>, then the banner.
\<close>

definition formattedLines :: "screenLine list \<Rightarrow> int \<Rightarrow> string list" where
  "formattedLines lines totalLines =
     (let maxLineNumWidth = max (length (toString totalLines))
                                (length (toString (lineNumber (last lines))));
          numbered = map (\<lambda>l. padStart maxLineNumWidth (toString (lineNumber l))
                                @ '' | '' @ content l) lines;
          lastLineNumber = lineNumber (last lines)
      in if lastLineNumber \<ge> totalLines
         then numbered
              @ replicate (nat (DEFAULT_SCREEN_HEIGHT - int (length lines)))
                  (padStart (maxLineNumWidth + 1) ''~'')
              @ [''[END OF FILE - '' @ toString totalLines @ '' lines total]'']
         else numbered)"

definition formatScreen :: "screenLine list \<Rightarrow> int \<Rightarrow> string" where
  "formatScreen lines totalLines =
     (if length lines = 0 then ''~'' @ nl @ ''(empty file)''
      else join nl (formattedLines lines totalLines))"

subsection \<open>Regular expressions\<close>

text \<open>
  The source builds every pattern with the flags \<^verbatim>\<open>gi\<close> and asks \<^verbatim>\<open>test\<close> of it, line
  after line. A compiled pattern is an object with its search function and its
  \<^verbatim>\<open>global\<close> property: \<open>search r s i\<close> is the end index of the first match of \<open>r\<close> in \<open>s\<close>
  that starts at index \<open>i\<close> or later, if there is one, and \<open>global r\<close> tells whether the
  flags had \<^verbatim>\<open>g\<close>. A global pattern keeps \<^verbatim>\<open>lastIndex\<close>: \<^verbatim>\<open>test\<close> searches from
  \<^verbatim>\<open>lastIndex\<close>, stores the end of the match there when it finds one, and stores 0 when
  it finds none or when \<^verbatim>\<open>lastIndex\<close> is beyond the end of the string. A pattern that
  is not global is searched from index 0 and leaves \<^verbatim>\<open>lastIndex\<close> alone. The constructor
  \<^verbatim>\<open>new RegExp(source, flags)\<close> belongs to the runtime; the handler takes it as the
  parameter \<open>newRegExp\<close>, which is given the source and the flags and returns the message
  of the \<^verbatim>\<open>SyntaxError\<close> or the compiled pattern.
\<close>

record regexp =
  search :: "string \<Rightarrow> nat \<Rightarrow> nat option"
  global :: bool

definition test :: "regexp \<Rightarrow> nat \<Rightarrow> string \<Rightarrow> bool \<times> nat" where
  "test r lastIndex s =
     (if global r then
        (if lastIndex > length s then (False, 0)
         else case search r s lastIndex of
                None \<Rightarrow> (False, 0)
              | Some e \<Rightarrow> (True, e))
      else (search r s 0 \<noteq> None, lastIndex))"

text \<open>The characters of the class \<^verbatim>\<open>[.*+?^${}()|[\]\\]\<close>.\<close>

definition metachars :: "char list" where
  "metachars = ''.*+?^${}()|[]'' @ [CHR 0x5C]"

text \<open>\<^verbatim>\<open>pattern.replace(/[.*+?^${}()|[\]\\]/g, '\\$&')\<close>: a backslash before each of them.\<close>

definition escapeRegExp :: "string \<Rightarrow> string" where
  "escapeRegExp pattern =
     concat (map (\<lambda>c. if c \<in> set metachars then [CHR 0x5C, c] else [c]) pattern)"

text \<open>
  The matcher compares characters after canonicalisation. Without the flag \<^verbatim>\<open>i\<close> it
  leaves every character alone; with it, on ASCII text, it maps the letters \<^verbatim>\<open>a\<close> to
  \<^verbatim>\<open>z\<close> to upper case and leaves every other character alone. Text is modelled as
  ASCII: the runtime also folds letters beyond ASCII, which are not modelled here.
\<close>

definition canonicalize :: "bool \<Rightarrow> char \<Rightarrow> char" where
  "canonicalize ignoreCase c =
     (let n = (of_char c :: nat)
      in if ignoreCase \<and> 97 \<le> n \<and> n \<le> 122 then char_of (n - 32) else c)"

text \<open>
  The pattern made of the characters \<open>p\<close>, each standing for itself: it matches at index
  \<open>i\<close> of \<open>s\<close> when the next \<open>length p\<close> characters of \<open>s\<close> are those of \<open>p\<close> up to
  canonicalisation; the search tries the indices from \<open>lastIndex\<close> to \<open>length s\<close> in turn.
  The flags decide the canonicalisation (\<^verbatim>\<open>i\<close>) and whether the pattern is global
  (\<^verbatim>\<open>g\<close>).
\<close>

definition matchesAt :: "bool \<Rightarrow> string \<Rightarrow> string \<Rightarrow> nat \<Rightarrow> bool" where
  "matchesAt ignoreCase p s i =
     (map (canonicalize ignoreCase) (take (length p) (drop i s))
        = map (canonicalize ignoreCase) p)"

definition literalRegExp :: "string \<Rightarrow> string \<Rightarrow> regexp" where
  "literalRegExp flags p =
     \<lparr> search = (\<lambda>s lastIndex.
          map_option (\<lambda>i. i + length p)
            (List.find (matchesAt (CHR ''i'' \<in> set flags) p s) [lastIndex ..< Suc (length s)])),
       global = (CHR ''g'' \<in> set flags) \<rparr>"

text \<open>A line contains \<open>p\<close> up to letter case.\<close>

definition containsIgnoringCase :: "string \<Rightarrow> string \<Rightarrow> bool" where
  "containsIgnoringCase p s = (\<exists>i \<in> set [0 ..< Suc (length s)]. matchesAt True p s i)"

text \<open>
  Reading a pattern source that uses no operator: a backslash followed by a
  metacharacter stands for that character, any other character that is not a
  metacharacter stands for itself, and anything else is not of this form.
\<close>

fun unescape :: "string \<Rightarrow> string option" where
  "unescape [] = Some []"
| "unescape [c] = (if c \<in> set metachars then None else Some [c])"
| "unescape (c # d # cs) =
     (if c = CHR 0x5C then
        (if d \<in> set metachars then map_option ((#) d) (unescape cs) else None)
      else if c \<in> set metachars then None
      else map_option ((#) c) (unescape (d # cs)))"

text \<open>
  A constructor for the examples, defined on the pattern sources without operators, where
  it returns the literal pattern with the given flags as the runtime does. Any other
  source is outside the fragment and is refused here, with a message in the form of the
  runtime's; the runtime refuses some of them (an unclosed \<^verbatim>\<open>(\<close> is one) and compiles
  the others. The theorems about the handler hold for every constructor; this one only
  supplies the concrete inputs.
\<close>

definition fragmentRegExp :: "string \<Rightarrow> string \<Rightarrow> string + regexp" where
  "fragmentRegExp source flags =
     (case unescape source of
        Some p \<Rightarrow> Inr (literalRegExp flags p)
      | None \<Rightarrow> Inl (''Invalid regular expression: /'' @ source @ ''/'')) "

subsection \<open>The navigator state\<close>

datatype searchMatch = SearchMatch (line: int) (matchContent: string)

record FileNavigatorState =
  currentFile :: "string option"
  currentLine :: int
  screenHeight :: int
  searchPattern :: "string option"
  searchMatches :: "searchMatch list"
  currentMatchIndex :: int

type_synonym navigatorStates = "string \<rightharpoonup> FileNavigatorState"

definition MAX_SEARCH_RESULTS :: nat where
  "MAX_SEARCH_RESULTS = 1000"

definition initialState :: "string \<Rightarrow> FileNavigatorState" where
  "initialState filename =
     \<lparr> currentFile = Some filename, currentLine = 1,
       screenHeight = DEFAULT_SCREEN_HEIGHT, searchPattern = None,
       searchMatches = [], currentMatchIndex = - 1 \<rparr>"

text \<open>
  \<^verbatim>\<open>getNavigatorState\<close> returns the state stored for the file, after storing the initial
  one when there was none.
\<close>

definition getNavigatorState ::
  "string \<Rightarrow> navigatorStates \<Rightarrow> FileNavigatorState \<times> navigatorStates" where
  "getNavigatorState filename tbl =
     (case tbl filename of
        None \<Rightarrow> (initialState filename, tbl(filename \<mapsto> initialState filename))
      | Some st \<Rightarrow> (st, tbl))"

text \<open>\<^verbatim>\<open>xs[i]\<close> is \<^verbatim>\<open>undefined\<close> out of range.\<close>

definition at :: "'a list \<Rightarrow> int \<Rightarrow> 'a option" where
  "at xs i = (if 0 \<le> i \<and> i < int (length xs) then Some (xs ! nat i) else None)"

subsection \<open>The search loop\<close>

text \<open>
  The \<^verbatim>\<open>for await\<close> loop of \<^verbatim>\<open>find\<close> over the lines still to read. \<open>lineNum\<close>,
  \<open>lastIndex\<close> (of \<^verbatim>\<open>searchRegex\<close>) and \<open>first\<close> (\<^verbatim>\<open>firstMatchAfterCursor\<close>) are the loop's
  variables; the state carries \<^verbatim>\<open>searchMatches\<close> and \<^verbatim>\<open>currentMatchIndex\<close>, which the loop
  writes, and \<^verbatim>\<open>currentLine\<close>, which it reads. \<open>recordMatch\<close> is the body of the
  \<^verbatim>\<open>if (searchRegex.test(line))\<close> up to the check of the cap: it pushes the match and
  tracks the first one at or after the cursor. The loop leaves when the matches reach
  \<open>MAX_SEARCH_RESULTS\<close>.
\<close>

definition recordMatch ::
  "int \<Rightarrow> string \<Rightarrow> searchMatch option \<Rightarrow> FileNavigatorState
     \<Rightarrow> searchMatch option \<times> FileNavigatorState" where
  "recordMatch lineNum l first st =
     (let m = SearchMatch lineNum l;
          st1 = st\<lparr>searchMatches := searchMatches st @ [m]\<rparr>
      in if first = None \<and> lineNum \<ge> currentLine st1
         then (Some m, st1\<lparr>currentMatchIndex := int (length (searchMatches st1)) - 1\<rparr>)
         else (first, st1))"

fun findLoop ::
  "regexp \<Rightarrow> string list \<Rightarrow> int \<Rightarrow> nat \<Rightarrow> searchMatch option \<Rightarrow> FileNavigatorState
     \<Rightarrow> searchMatch option \<times> FileNavigatorState" where
  "findLoop r [] lineNum lastIndex first st = (first, st)"
| "findLoop r (l # rest) lineNum lastIndex first st =
     (if fst (test r lastIndex l) then
        (let recorded = recordMatch lineNum l first st
         in if length (searchMatches (snd recorded)) \<ge> MAX_SEARCH_RESULTS then recorded
            else findLoop r rest (lineNum + 1) (snd (test r lastIndex l))
                   (fst recorded) (snd recorded))
      else findLoop r rest (lineNum + 1) (snd (test r lastIndex l)) first st)"

subsection \<open>The tools\<close>

type_synonym outcome = "(error + string) \<times> navigatorStates"

definition go_to_line ::
  "fileSystem \<Rightarrow> string \<Rightarrow> int \<Rightarrow> int option \<Rightarrow> navigatorStates \<Rightarrow> outcome" where
  "go_to_line fs filename ln screen_height tbl =
     (let (state, tbl1) = getNavigatorState filename tbl
      in case getTotalLines fs filename of
           Inl e \<Rightarrow> (Inl e, tbl1)
         | Inr totalLines \<Rightarrow>
             let st1 = (case screen_height of
                          None \<Rightarrow> state
                        | Some h \<Rightarrow> if h \<noteq> 0 then state\<lparr>screenHeight := h\<rparr> else state);
                 st2 = st1\<lparr>currentLine := max 1 (min ln totalLines)\<rparr>
             in (case getLines fs filename (currentLine st2) (screenHeight st2) of
                   Inl e \<Rightarrow> (Inl e, tbl1(filename \<mapsto> st2))
                 | Inr lines \<Rightarrow> (Inr (formatScreen lines totalLines), tbl1(filename \<mapsto> st2))))"

text \<open>
  \<^verbatim>\<open>find\<close>, in the three parts of its source. The last part writes the cursor and renders
  the screen when there is a match to land on, and reports the pattern as not found
  otherwise.
\<close>

definition findReport ::
  "fileSystem \<Rightarrow> string \<Rightarrow> string \<Rightarrow> searchMatch option \<Rightarrow> FileNavigatorState
     \<Rightarrow> navigatorStates \<Rightarrow> outcome" where
  "findReport fs filename pattern first st tbl1 =
     (case first of
        Some m \<Rightarrow>
          let st5 = st\<lparr>currentLine := line m\<rparr>
          in (case getLines fs filename (currentLine st5) (screenHeight st5) of
                Inl e \<Rightarrow> (Inl e, tbl1(filename \<mapsto> st5))
              | Inr lines \<Rightarrow>
                  (case getTotalLines fs filename of
                     Inl e \<Rightarrow> (Inl e, tbl1(filename \<mapsto> st5))
                   | Inr totalLines \<Rightarrow>
                       (Inr (''Found match 1 of ''
                             @ toString (int (length (searchMatches st5)))
                             @ nl @ nl @ formatScreen lines totalLines),
                        tbl1(filename \<mapsto> st5))))
      | None \<Rightarrow>
          (Inr (''Pattern not found: '' @ [CHR 0x22] @ pattern @ [CHR 0x22]),
           tbl1(filename \<mapsto> st)))"

text \<open>
  The middle part scans the file with the compiled pattern, from line 1 and
  \<^verbatim>\<open>lastIndex\<close> 0, and wraps to the first match when none was at or after the cursor.
\<close>

definition findScan ::
  "regexp \<Rightarrow> fileSystem \<Rightarrow> string \<Rightarrow> string \<Rightarrow> FileNavigatorState
     \<Rightarrow> navigatorStates \<Rightarrow> outcome" where
  "findScan searchRegex fs filename pattern st2 tbl1 =
     (case readFileLines fs filename of
        Inl e \<Rightarrow> (Inl e, tbl1(filename \<mapsto> st2))
      | Inr ls \<Rightarrow>
          let (first, st3) = findLoop searchRegex ls 1 0 None st2;
              wrap = (first = None \<and> length (searchMatches st3) > 0);
              first1 = (if wrap then at (searchMatches st3) 0 else first);
              st4 = (if wrap then st3\<lparr>currentMatchIndex := 0\<rparr> else st3)
          in findReport fs filename pattern first1 st4 tbl1)"

text \<open>
  The first part resets the matches and the match index, then compiles the pattern (in
  regex mode a failure becomes the \<open>InvalidParams\<close> error; in literal mode the escaped
  source goes to the same constructor, outside the \<^verbatim>\<open>try\<close>), then stores the pattern.
\<close>

definition find_tool ::
  "(string \<Rightarrow> string \<Rightarrow> string + regexp) \<Rightarrow> fileSystem \<Rightarrow> string \<Rightarrow> string \<Rightarrow> bool option
     \<Rightarrow> navigatorStates \<Rightarrow> outcome" where
  "find_tool newRegExp fs filename pattern is_regex tbl =
     (let (state, tbl1) = getNavigatorState filename tbl;
          st1 = state\<lparr>searchMatches := [], currentMatchIndex := - 1\<rparr>;
          compiled =
            (if is_regex = Some True then
               (case newRegExp pattern ''gi'' of
                  Inl message \<Rightarrow>
                    Inl (McpError InvalidParams (''Invalid regex pattern: '' @ message))
                | Inr r \<Rightarrow> Inr r)
             else
               (case newRegExp (escapeRegExp pattern) ''gi'' of
                  Inl message \<Rightarrow> Inl (SyntaxError message)
                | Inr r \<Rightarrow> Inr r))
      in case compiled of
           Inl e \<Rightarrow> (Inl e, tbl1(filename \<mapsto> st1))
         | Inr searchRegex \<Rightarrow>
             findScan searchRegex fs filename pattern (st1\<lparr>searchPattern := Some pattern\<rparr>) tbl1)"

text \<open>The end of \<^verbatim>\<open>next_match\<close> and \<^verbatim>\<open>prev_match\<close>: go to the match at the index just stored.\<close>

definition showMatch :: "fileSystem \<Rightarrow> string \<Rightarrow> FileNavigatorState \<Rightarrow> navigatorStates \<Rightarrow> outcome" where
  "showMatch fs filename st1 tbl1 =
     (case at (searchMatches st1) (currentMatchIndex st1) of
        None \<Rightarrow> (Inl TypeError, tbl1(filename \<mapsto> st1))
      | Some m \<Rightarrow>
          let st2 = st1\<lparr>currentLine := line m\<rparr>
          in (case getLines fs filename (currentLine st2) (screenHeight st2) of
               Inl e \<Rightarrow> (Inl e, tbl1(filename \<mapsto> st2))
             | Inr lines \<Rightarrow>
                 (case getTotalLines fs filename of
                    Inl e \<Rightarrow> (Inl e, tbl1(filename \<mapsto> st2))
                  | Inr totalLines \<Rightarrow>
                      (Inr (''Match '' @ toString (currentMatchIndex st2 + 1) @ '' of ''
                            @ toString (int (length (searchMatches st2)))
                            @ nl @ nl @ formatScreen lines totalLines),
                       tbl1(filename \<mapsto> st2)))))"

definition noActiveSearch :: string where
  "noActiveSearch = ''No active search. Use '' @ [CHR 0x27] @ ''find'' @ [CHR 0x27] @ '' first.''"

text \<open>\<^verbatim>\<open>%\<close> is the remainder of the truncating division, \<open>smod\<close>.\<close>

definition next_match :: "fileSystem \<Rightarrow> string \<Rightarrow> navigatorStates \<Rightarrow> outcome" where
  "next_match fs filename tbl =
     (let (state, tbl1) = getNavigatorState filename tbl
      in if length (searchMatches state) = 0 then (Inr noActiveSearch, tbl1)
         else showMatch fs filename
                (state\<lparr>currentMatchIndex :=
                    (currentMatchIndex state + 1) smod int (length (searchMatches state))\<rparr>)
                tbl1)"

definition prev_match :: "fileSystem \<Rightarrow> string \<Rightarrow> navigatorStates \<Rightarrow> outcome" where
  "prev_match fs filename tbl =
     (let (state, tbl1) = getNavigatorState filename tbl
      in if length (searchMatches state) = 0 then (Inr noActiveSearch, tbl1)
         else let st0 = state\<lparr>currentMatchIndex := currentMatchIndex state - 1\<rparr>;
                  st1 = (if currentMatchIndex st0 < 0
                         then st0\<lparr>currentMatchIndex := int (length (searchMatches st0)) - 1\<rparr>
                         else st0)
              in showMatch fs filename st1 tbl1)"

definition page_up :: "fileSystem \<Rightarrow> string \<Rightarrow> navigatorStates \<Rightarrow> outcome" where
  "page_up fs filename tbl =
     (let (state, tbl1) = getNavigatorState filename tbl;
          st1 = state\<lparr>currentLine := max 1 (currentLine state - screenHeight state)\<rparr>
      in case getLines fs filename (currentLine st1) (screenHeight st1) of
           Inl e \<Rightarrow> (Inl e, tbl1(filename \<mapsto> st1))
         | Inr lines \<Rightarrow>
             (case getTotalLines fs filename of
                Inl e \<Rightarrow> (Inl e, tbl1(filename \<mapsto> st1))
              | Inr totalLines \<Rightarrow> (Inr (formatScreen lines totalLines), tbl1(filename \<mapsto> st1))))"

definition page_down :: "fileSystem \<Rightarrow> string \<Rightarrow> navigatorStates \<Rightarrow> outcome" where
  "page_down fs filename tbl =
     (let (state, tbl1) = getNavigatorState filename tbl
      in case getTotalLines fs filename of
           Inl e \<Rightarrow> (Inl e, tbl1)
         | Inr totalLines \<Rightarrow>
             let st1 = state\<lparr>currentLine := min totalLines (currentLine state + screenHeight state)\<rparr>
             in (case getLines fs filename (currentLine st1) (screenHeight st1) of
                   Inl e \<Rightarrow> (Inl e, tbl1(filename \<mapsto> st1))
                 | Inr lines \<Rightarrow> (Inr (formatScreen lines totalLines), tbl1(filename \<mapsto> st1))))"

subsection \<open>The request handler\<close>

text \<open>
  A request that carries an arguments object: the tool and its arguments, the file name
  first. Optional arguments are options.
\<close>

datatype request =
    GoToLine string int "int option"
  | Find string string "bool option"
  | NextMatch string
  | PrevMatch string
  | PageUp string
  | PageDown string
  | OtherTool string string

fun filenameOf :: "request \<Rightarrow> string" where
  "filenameOf (GoToLine f ln h) = f"
| "filenameOf (Find f p b) = f"
| "filenameOf (NextMatch f) = f"
| "filenameOf (PrevMatch f) = f"
| "filenameOf (PageUp f) = f"
| "filenameOf (PageDown f) = f"
| "filenameOf (OtherTool f name) = f"

fun dispatch ::
  "(string \<Rightarrow> string \<Rightarrow> string + regexp) \<Rightarrow> fileSystem \<Rightarrow> request \<Rightarrow> navigatorStates
     \<Rightarrow> outcome" where
  "dispatch newRegExp fs (GoToLine f ln h) tbl = go_to_line fs f ln h tbl"
| "dispatch newRegExp fs (Find f p b) tbl = find_tool newRegExp fs f p b tbl"
| "dispatch newRegExp fs (NextMatch f) tbl = next_match fs f tbl"
| "dispatch newRegExp fs (PrevMatch f) tbl = prev_match fs f tbl"
| "dispatch newRegExp fs (PageUp f) tbl = page_up fs f tbl"
| "dispatch newRegExp fs (PageDown f) tbl = page_down fs f tbl"
| "dispatch newRegExp fs (OtherTool f name) tbl =
     (Inl (McpError MethodNotFound (''Unknown tool: '' @ name)), tbl)"

text \<open>
  The handler: \<^verbatim>\<open>fs.access\<close> when the file name is not empty, the tool, and the
  \<^verbatim>\<open>catch\<close> that turns \<open>ENOENT\<close> into the \<open>InvalidParams\<close> error and rethrows the rest.
\<close>

definition fileNotFound :: "string \<Rightarrow> error" where
  "fileNotFound filename = McpError InvalidParams (''File not found: '' @ filename)"

definition handleRequest ::
  "(string \<Rightarrow> string \<Rightarrow> string + regexp) \<Rightarrow> fileSystem \<Rightarrow> request \<Rightarrow> navigatorStates
     \<Rightarrow> outcome" where
  "handleRequest newRegExp fs req tbl =
     (let filename = filenameOf req
      in if filename \<noteq> [] \<and> fs filename = None then (Inl (fileNotFound filename), tbl)
         else case dispatch newRegExp fs req tbl of
                (Inl ENOENT, tbl') \<Rightarrow> (Inl (fileNotFound filename), tbl')
              | (res, tbl') \<Rightarrow> (res, tbl'))"

subsection \<open>Example files and states\<close>

text \<open>
  A file of the three lines \<^verbatim>\<open>one\<close>, \<^verbatim>\<open>two\<close>, \<^verbatim>\<open>three\<close> that arrives in two chunks, an
  empty file, and a file of two equal lines, each under the name \<^verbatim>\<open>f\<close> in a file system
  of its own; and a file system with two files, \<^verbatim>\<open>f\<close> and \<^verbatim>\<open>g\<close>.
\<close>

definition threeLinesChunks :: "string list" where
  "threeLinesChunks = [''one'' @ nl @ ''tw'', ''o'' @ nl @ ''three'' @ nl]"

definition threeLines :: fileSystem where
  "threeLines = (\<lambda>p. if p = ''f'' then Some threeLinesChunks else None)"

definition emptyFile :: fileSystem where
  "emptyFile = (\<lambda>p. if p = ''f'' then Some [] else None)"

definition twoEqualLines :: fileSystem where
  "twoEqualLines = (\<lambda>p. if p = ''f'' then Some [''ab'' @ nl @ ''ab''] else None)"

definition twoFiles :: fileSystem where
  "twoFiles = (\<lambda>p. if p = ''f'' then Some [''one'' @ nl @ ''two'']
                    else if p = ''g'' then Some [''three''] else None)"

text \<open>
  A file of the one line \<^verbatim>\<open>AB\<close>, and a file of the two lines \<^verbatim>\<open>ab\<close> and \<^verbatim>\<open>AB\<close>.
\<close>

definition upperLine :: fileSystem where
  "upperLine = (\<lambda>p. if p = ''f'' then Some [''AB''] else None)"

definition lowerThenUpper :: fileSystem where
  "lowerThenUpper = (\<lambda>p. if p = ''f'' then Some [''ab'' @ nl @ ''AB''] else None)"

text \<open>The state table after a literal search for \<^verbatim>\<open>e\<close> in the three lines.\<close>

definition afterSearch :: navigatorStates where
  "afterSearch = snd (handleRequest fragmentRegExp threeLines (Find ''f'' ''e'' None) Map.empty)"

text \<open>The state table after a jump to line 3 of the three lines, and after a search from there.\<close>

definition atLineThree :: navigatorStates where
  "atLineThree = snd (handleRequest fragmentRegExp threeLines (GoToLine ''f'' 3 None) Map.empty)"

definition afterWrap :: navigatorStates where
  "afterWrap = snd (handleRequest fragmentRegExp threeLines (Find ''f'' ''on'' None) atLineThree)"

text \<open>The state table after a jump to line 1 of the second of the two files.\<close>

definition afterJump :: navigatorStates where
  "afterJump = snd (handleRequest fragmentRegExp twoFiles (GoToLine ''g'' 1 None) Map.empty)"

subsection \<open>Predicates of the statements\<close>

text \<open>
  What the search loop maintains about \<^verbatim>\<open>firstMatchAfterCursor\<close> and the match index:
  while no match is tracked, every match so far is before the cursor; once one is
  tracked, it is the match at the index, it is at or after the cursor, and every match
  before that index is before the cursor.
\<close>

definition landedAt :: "int \<Rightarrow> searchMatch list \<Rightarrow> searchMatch option \<Rightarrow> int \<Rightarrow> bool" where
  "landedAt cursor ms first idx =
     (case first of
        None \<Rightarrow> (\<forall>m \<in> set ms. line m < cursor)
      | Some m \<Rightarrow> 0 \<le> idx \<and> idx < int (length ms) \<and> ms ! nat idx = m \<and> cursor \<le> line m
                  \<and> (\<forall>j < nat idx. line (ms ! j) < cursor))"

text \<open>
  The invariant of the state for a file of \<open>totalLines\<close> lines: the cursor is a line of the
  file, the page size is at least 1, the matches are at most \<open>MAX_SEARCH_RESULTS\<close> and
  are lines of the file, and the match index is an index of the matches when there are
  any.
\<close>

definition withinFile :: "int \<Rightarrow> FileNavigatorState \<Rightarrow> bool" where
  "withinFile totalLines st =
     (1 \<le> currentLine st \<and> currentLine st \<le> totalLines \<and> 1 \<le> screenHeight st
      \<and> length (searchMatches st) \<le> MAX_SEARCH_RESULTS
      \<and> (searchMatches st \<noteq> [] \<longrightarrow>
             0 \<le> currentMatchIndex st \<and> currentMatchIndex st < int (length (searchMatches st)))
      \<and> (\<forall>m \<in> set (searchMatches st). 1 \<le> line m \<and> line m \<le> totalLines))"

section \<open>Properties\<close>

subsection \<open>Reading the file and the handler's wrapper\<close>

lemma getTotalLines_Some:
  "fs f = Some chunks \<Longrightarrow> getTotalLines fs f = Inr (int (length (readChunks [] chunks)))"
  by (simp add: getTotalLines_def readFileLines_def)

lemma getLines_Some:
  "fs f = Some chunks \<Longrightarrow> getLines fs f a b = Inr (getLinesLoop a b 1 [] (readChunks [] chunks))"
  by (simp add: getLines_def readFileLines_def)

lemma readFileLines_Some:
  "fs f = Some chunks \<Longrightarrow> readFileLines fs f = Inr (readChunks [] chunks)"
  by (simp add: readFileLines_def)

lemma snd_handleRequest:
  "snd (handleRequest newRegExp fs req tbl) =
     (if filenameOf req \<noteq> [] \<and> fs (filenameOf req) = None then tbl
      else snd (dispatch newRegExp fs req tbl))"
  by (simp add: handleRequest_def Let_def split: prod.splits sum.splits error.splits)

lemma handleRequest_Inr:
  "filenameOf req = [] \<or> fs (filenameOf req) \<noteq> None \<Longrightarrow>
   dispatch newRegExp fs req tbl = (Inr t, tbl') \<Longrightarrow>
   handleRequest newRegExp fs req tbl = (Inr t, tbl')"
  by (auto simp add: handleRequest_def Let_def)

lemma handleRequest_readable:
  "fs (filenameOf req) = Some chunks \<Longrightarrow>
   handleRequest newRegExp fs req tbl =
     (case dispatch newRegExp fs req tbl of
        (Inl ENOENT, tbl') \<Rightarrow> (Inl (fileNotFound (filenameOf req)), tbl')
      | (res, tbl') \<Rightarrow> (res, tbl'))"
  by (simp add: handleRequest_def Let_def)

lemma go_to_line_readable:
  assumes "fs f = Some chunks"
  shows "go_to_line fs f ln h tbl =
     (let st = fst (getNavigatorState f tbl);
          total = int (length (readChunks [] chunks));
          st2 = st\<lparr>screenHeight := (case h of None \<Rightarrow> screenHeight st
                                       | Some k \<Rightarrow> if k \<noteq> 0 then k else screenHeight st),
                   currentLine := max 1 (min ln total)\<rparr>
      in (Inr (formatScreen (getLinesLoop (currentLine st2) (screenHeight st2) 1 []
                               (readChunks [] chunks)) total),
          tbl(f \<mapsto> st2)))"
  using assms
  by (auto simp add: go_to_line_def Let_def case_prod_beta getTotalLines_Some getLines_Some
       getNavigatorState_def split: option.splits)

lemma go_to_line_stored:
  assumes "fs f = Some chunks"
  shows "snd (handleRequest newRegExp fs (GoToLine f ln h) tbl) f =
     Some ((fst (getNavigatorState f tbl))
             \<lparr>screenHeight := (case h of None \<Rightarrow> screenHeight (fst (getNavigatorState f tbl))
                                | Some k \<Rightarrow> if k \<noteq> 0 then k
                                            else screenHeight (fst (getNavigatorState f tbl))),
               currentLine := max 1 (min ln (int (length (readChunks [] chunks))))\<rparr>)"
  using assms by (simp add: snd_handleRequest go_to_line_readable Let_def)

subsection \<open>One state per file\<close>

lemma getNavigatorState_other:
  "f \<noteq> q \<Longrightarrow> snd (getNavigatorState f tbl) q = tbl q"
  by (simp add: getNavigatorState_def split: option.splits)

lemma go_to_line_other: "f \<noteq> q \<Longrightarrow> snd (go_to_line fs f ln h tbl) q = tbl q"
  by (simp add: go_to_line_def Let_def case_prod_beta getNavigatorState_other split: sum.split)

lemma findReport_other: "f \<noteq> q \<Longrightarrow> snd (findReport fs f p first st tbl1) q = tbl1 q"
  by (simp add: findReport_def Let_def split: sum.split option.split)

lemma findScan_other: "f \<noteq> q \<Longrightarrow> snd (findScan r fs f p st tbl1) q = tbl1 q"
  by (simp add: findScan_def Let_def case_prod_beta findReport_other split: sum.split)

lemma find_tool_other: "f \<noteq> q \<Longrightarrow> snd (find_tool newRegExp fs f p b tbl) q = tbl q"
  by (simp add: find_tool_def Let_def case_prod_beta getNavigatorState_other findScan_other
        split: sum.split)

lemma showMatch_other: "f \<noteq> q \<Longrightarrow> snd (showMatch fs f st tbl) q = tbl q"
  by (simp add: showMatch_def Let_def split: sum.split option.split)

lemma next_match_other: "f \<noteq> q \<Longrightarrow> snd (next_match fs f tbl) q = tbl q"
  by (simp add: next_match_def Let_def case_prod_beta showMatch_other getNavigatorState_other)

lemma prev_match_other: "f \<noteq> q \<Longrightarrow> snd (prev_match fs f tbl) q = tbl q"
  by (simp add: prev_match_def Let_def case_prod_beta showMatch_other getNavigatorState_other)

lemma page_up_other: "f \<noteq> q \<Longrightarrow> snd (page_up fs f tbl) q = tbl q"
  by (simp add: page_up_def Let_def case_prod_beta getNavigatorState_other split: sum.split)

lemma page_down_other: "f \<noteq> q \<Longrightarrow> snd (page_down fs f tbl) q = tbl q"
  by (simp add: page_down_def Let_def case_prod_beta getNavigatorState_other split: sum.split)

text \<open>
  Claim C9. A request for the file \<open>p\<close> leaves the entry of the state table of every other
  file \<open>q\<close> as it was, whatever the tool, the file system and the outcome (a result or an
  error).
\<close>

theorem other_file_unchanged:
  "filenameOf req \<noteq> q \<Longrightarrow> snd (handleRequest newRegExp fs req tbl) q = tbl q"
  by (cases req)
     (simp_all add: snd_handleRequest go_to_line_other find_tool_other next_match_other
        prev_match_other page_up_other page_down_other)

theorem other_file_unchanged_witness:
  "filenameOf (PageDown ''f'') \<noteq> ''g''
   \<and> snd (handleRequest fragmentRegExp twoFiles (PageDown ''f'') afterJump) ''g'' = afterJump ''g''"
proof -
  have a: "filenameOf (PageDown ''f'') \<noteq> ''g''" by simp
  show ?thesis
    using a other_file_unchanged [where req = "PageDown ''f''" and q = "''g''"
        and newRegExp = fragmentRegExp and fs = twoFiles and tbl = afterJump, OF a]
    by simp
qed

subsection \<open>No active search\<close>

text \<open>
  Claim C8. When the file can be accessed and the state the tool sees for it (the stored
  one, or the initial one when none is stored) has no matches, \<^verbatim>\<open>next_match\<close> and
  \<^verbatim>\<open>prev_match\<close> return the text \<open>noActiveSearch\<close> as a result, not an error; the state
  seen for every file is the same afterwards, and the table itself is the same when it
  already had an entry for the file.
\<close>

theorem no_active_search_is_soft:
  assumes "filename = [] \<or> fs filename \<noteq> None"
      and "searchMatches (fst (getNavigatorState filename tbl)) = []"
      and "req = NextMatch filename \<or> req = PrevMatch filename"
  shows "fst (handleRequest newRegExp fs req tbl) = Inr noActiveSearch
       \<and> (\<forall>q. fst (getNavigatorState q (snd (handleRequest newRegExp fs req tbl)))
               = fst (getNavigatorState q tbl))
       \<and> (tbl filename \<noteq> None \<longrightarrow> snd (handleRequest newRegExp fs req tbl) = tbl)"
proof -
  have d: "dispatch newRegExp fs req tbl
             = (Inr noActiveSearch, snd (getNavigatorState filename tbl))"
    using assms(2,3) by (auto simp add: next_match_def prev_match_def case_prod_beta)
  have h: "handleRequest newRegExp fs req tbl
             = (Inr noActiveSearch, snd (getNavigatorState filename tbl))"
    using assms(1,3) d by (auto intro!: handleRequest_Inr)
  show ?thesis
    by (auto simp add: h getNavigatorState_def split: option.splits)
qed

theorem no_active_search_is_soft_witness:
  "twoFiles ''g'' = Some [''three'']
   \<and> afterJump ''g'' = Some (initialState ''g'')
   \<and> fst (handleRequest fragmentRegExp twoFiles (PrevMatch ''g'') afterJump) = Inr noActiveSearch
   \<and> snd (handleRequest fragmentRegExp twoFiles (PrevMatch ''g'') afterJump) = afterJump"
proof -
  have g: "twoFiles ''g'' = Some [''three'']"
    by (simp add: twoFiles_def)
  have a: "''g'' = [] \<or> twoFiles ''g'' \<noteq> None"
    using g by simp
  have s: "afterJump ''g'' = Some (initialState ''g'')"
    unfolding afterJump_def
    using go_to_line_stored [where fs = twoFiles and f = "''g''" and chunks = "[''three'']"
        and ln = 1 and h = None and tbl = Map.empty and newRegExp = fragmentRegExp, OF g]
    by (simp add: getNavigatorState_def initialState_def)
  have b: "searchMatches (fst (getNavigatorState ''g'' afterJump)) = []"
    by (simp add: getNavigatorState_def s initialState_def)
  have c: "PrevMatch ''g'' = NextMatch ''g'' \<or> PrevMatch ''g'' = PrevMatch ''g''"
    by simp
  show ?thesis
    using g s no_active_search_is_soft [where filename = "''g''" and fs = twoFiles
        and tbl = afterJump and req = "PrevMatch ''g''" and newRegExp = fragmentRegExp, OF a b c]
    by simp
qed

subsection \<open>Jumping to a line\<close>

lemma clamp_cases:
  "max 1 (min ln (int n)) = (if int n = 0 \<or> ln < 1 then 1 else if ln > int n then int n else ln)"
  by (cases n) auto

text \<open>
  Claim C4. On a readable file of \<open>total\<close> lines, \<^verbatim>\<open>go_to_line\<close> leaves the cursor at
  \<open>max 1 (min ln total)\<close>: 1 when the file is empty or \<open>ln\<close> is below 1, \<open>total\<close> when \<open>ln\<close>
  is beyond it, \<open>ln\<close> otherwise. The same request made a second time returns the same
  text and leaves the same state table as the first.
\<close>

theorem go_to_line_clamps:
  assumes "fs filename = Some chunks"
  shows "(\<exists>st. snd (handleRequest newRegExp fs (GoToLine filename ln h) tbl) filename = Some st
            \<and> currentLine st = max 1 (min ln (int (length (readChunks [] chunks))))
            \<and> currentLine st =
                (if int (length (readChunks [] chunks)) = 0 \<or> ln < 1 then 1
                 else if ln > int (length (readChunks [] chunks))
                      then int (length (readChunks [] chunks))
                 else ln))
       \<and> handleRequest newRegExp fs (GoToLine filename ln h)
             (snd (handleRequest newRegExp fs (GoToLine filename ln h) tbl))
           = handleRequest newRegExp fs (GoToLine filename ln h) tbl"
proof -
  have r: "\<And>t. handleRequest newRegExp fs (GoToLine filename ln h) t
                 = go_to_line fs filename ln h t"
    using assms
    by (simp add: handleRequest_readable [where chunks = chunks] go_to_line_readable Let_def)
  have cursor: "\<exists>st. snd (go_to_line fs filename ln h tbl) filename = Some st
            \<and> currentLine st = max 1 (min ln (int (length (readChunks [] chunks))))"
    using assms by (simp add: go_to_line_readable Let_def)
  have twice: "go_to_line fs filename ln h (snd (go_to_line fs filename ln h tbl))
          = go_to_line fs filename ln h tbl"
    using assms
    by (auto simp add: go_to_line_readable Let_def getNavigatorState_def split: option.splits)
  show ?thesis
    unfolding r using cursor twice by (simp only: clamp_cases) simp
qed

theorem go_to_line_clamps_witness:
  "threeLines ''f'' = Some threeLinesChunks
   \<and> (\<exists>st. snd (handleRequest fragmentRegExp threeLines (GoToLine ''f'' 500000 None) Map.empty) ''f''
              = Some st \<and> currentLine st = 3)"
proof -
  have a: "threeLines ''f'' = Some threeLinesChunks"
    by (simp add: threeLines_def)
  have n: "readChunks [] threeLinesChunks = [''one'', ''two'', ''three'']"
    by code_simp
  show ?thesis
    using a go_to_line_clamps [where fs = threeLines and filename = "''f''" and ln = 500000
        and h = None and tbl = Map.empty and newRegExp = fragmentRegExp, OF a]
    by (simp add: n)
qed

subsection \<open>Filler rows at the end of the file\<close>

text \<open>
  Claim C5. At the end of the file the formatter adds filler rows up to the page size of
  the session. Here the session's \<open>screenHeight\<close> is 5 and the window shows the three
  lines of the file; the screen has 27 filler rows, which fill it up to the default
  height of 30, not the 2 that would fill it up to 5.
\<close>

theorem filler_rows_up_to_default_height:
  "map_option screenHeight
     (snd (handleRequest fragmentRegExp threeLines (GoToLine ''f'' 1 (Some 5)) Map.empty) ''f'') = Some 5
   \<and> fst (handleRequest fragmentRegExp threeLines (GoToLine ''f'' 1 (Some 5)) Map.empty)
       = Inr (join nl ([''1 | one'', ''2 | two'', ''3 | three'']
                       @ replicate 27 '' ~''
                       @ [''[END OF FILE - 3 lines total]'']))"
  by code_simp

subsection \<open>A search that repeats a line\<close>

text \<open>
  Claim C1. A line is recorded exactly when the pattern occurs in it, whatever the lines
  before it. Here the file has the line \<^verbatim>\<open>ab\<close> twice and the literal pattern is \<^verbatim>\<open>ab\<close>:
  the test of line 1 succeeds and leaves \<^verbatim>\<open>lastIndex\<close> at 2, the test of line 2 then
  searches from index 2 and fails, and only line 1 is recorded.
\<close>

theorem repeated_line_not_recorded:
  "readFileLines twoEqualLines ''f'' = Inr [''ab'', ''ab'']
   \<and> containsIgnoringCase ''ab'' ''ab''
   \<and> test (literalRegExp ''gi'' ''ab'') 0 ''ab'' = (True, 2)
   \<and> test (literalRegExp ''gi'' ''ab'') 2 ''ab'' = (False, 0)
   \<and> map_option searchMatches
        (snd (handleRequest fragmentRegExp twoEqualLines (Find ''f'' ''ab'' None) Map.empty) ''f'')
       = Some [SearchMatch 1 ''ab'']"
  by code_simp

subsection \<open>A pattern that does not compile\<close>

text \<open>
  Claim C6, as the source has it. When the pattern of a regex-mode \<^verbatim>\<open>find\<close> does not
  compile and the file passes the access check, the handler returns the \<open>InvalidParams\<close>
  error with the constructor's message and reads nothing of the file (the outcome does
  not mention its content). The cursor, the page size and the stored pattern string of
  the file's state are as before; its matches are emptied and its match index is set to
  \<open>- 1\<close>, since \<^verbatim>\<open>find\<close> resets both before it compiles the pattern.
\<close>

theorem invalid_regex_resets_search:
  assumes "newRegExp pattern ''gi'' = Inl message" and "filename = [] \<or> fs filename \<noteq> None"
  shows "handleRequest newRegExp fs (Find filename pattern (Some True)) tbl =
      (Inl (McpError InvalidParams (''Invalid regex pattern: '' @ message)),
       tbl(filename \<mapsto> (fst (getNavigatorState filename tbl))
                             \<lparr>searchMatches := [], currentMatchIndex := - 1\<rparr>))"
proof -
  have d: "find_tool newRegExp fs filename pattern (Some True) tbl =
      (Inl (McpError InvalidParams (''Invalid regex pattern: '' @ message)),
       tbl(filename \<mapsto> (fst (getNavigatorState filename tbl))
                             \<lparr>searchMatches := [], currentMatchIndex := - 1\<rparr>))"
    using assms(1)
    by (auto simp add: find_tool_def Let_def case_prod_beta getNavigatorState_def
          split: option.splits)
  show ?thesis
    using assms(2) by (auto simp add: handleRequest_def Let_def d)
qed

theorem invalid_regex_resets_search_witness:
  "fragmentRegExp ''('' ''gi'' = Inl ''Invalid regular expression: /(/''
   \<and> threeLines ''f'' = Some threeLinesChunks
   \<and> handleRequest fragmentRegExp threeLines (Find ''f'' ''('' (Some True)) afterSearch
       = (Inl (McpError InvalidParams ''Invalid regex pattern: Invalid regular expression: /(/''),
          afterSearch(''f'' \<mapsto> (fst (getNavigatorState ''f'' afterSearch))
                                  \<lparr>searchMatches := [], currentMatchIndex := - 1\<rparr>))"
proof -
  have a: "fragmentRegExp ''('' ''gi'' = Inl ''Invalid regular expression: /(/''"
    by (simp add: fragmentRegExp_def metachars_def)
  have t: "threeLines ''f'' = Some threeLinesChunks"
    by (simp add: threeLines_def)
  have b: "''f'' = [] \<or> threeLines ''f'' \<noteq> None"
    using t by simp
  show ?thesis
    using a t invalid_regex_resets_search [where newRegExp = fragmentRegExp and pattern = "''(''"
        and message = "''Invalid regular expression: /(/''" and filename = "''f''"
        and fs = threeLines and tbl = afterSearch, OF a b]
    by simp
qed

text \<open>
  Claim C6, as stated, fails: after a search for \<^verbatim>\<open>e\<close> has stored two matches, a regex-mode
  \<^verbatim>\<open>find\<close> with the pattern \<^verbatim>\<open>(\<close> returns the error and the stored matches and match
  index are no longer what they were.
\<close>

theorem invalid_regex_state_counterexample:
  "fst (handleRequest fragmentRegExp threeLines (Find ''f'' ''('' (Some True)) afterSearch)
     = Inl (McpError InvalidParams ''Invalid regex pattern: Invalid regular expression: /(/'')
   \<and> map_option searchMatches (afterSearch ''f'')
       = Some [SearchMatch 1 ''one'', SearchMatch 3 ''three'']
   \<and> map_option currentMatchIndex (afterSearch ''f'') = Some 0
   \<and> map_option searchMatches
        (snd (handleRequest fragmentRegExp threeLines (Find ''f'' ''('' (Some True)) afterSearch) ''f'')
       = Some []
   \<and> map_option currentMatchIndex
        (snd (handleRequest fragmentRegExp threeLines (Find ''f'' ''('' (Some True)) afterSearch) ''f'')
       = Some (- 1)"
  by code_simp

subsection \<open>The search loop\<close>

lemma recordMatch_matches:
  "searchMatches (snd (recordMatch n l first st)) = searchMatches st @ [SearchMatch n l]"
  by (simp add: recordMatch_def Let_def)

lemma recordMatch_frame:
  "currentLine (snd (recordMatch n l first st)) = currentLine st"
  "screenHeight (snd (recordMatch n l first st)) = screenHeight st"
  "searchPattern (snd (recordMatch n l first st)) = searchPattern st"
  "currentFile (snd (recordMatch n l first st)) = currentFile st"
  by (simp_all add: recordMatch_def Let_def)

lemma recordMatch_landed:
  assumes "landedAt (currentLine st) (searchMatches st) first (currentMatchIndex st)"
  shows "landedAt (currentLine st) (searchMatches (snd (recordMatch n l first st)))
           (fst (recordMatch n l first st)) (currentMatchIndex (snd (recordMatch n l first st)))"
proof (cases first)
  case None
  then show ?thesis
    using assms by (auto simp add: recordMatch_def Let_def landedAt_def nth_append)
next
  case (Some m)
  then show ?thesis
    using assms by (auto simp add: recordMatch_def Let_def landedAt_def nth_append)
qed

lemma findLoop_frame:
  "currentLine (snd (findLoop r ls n li first st)) = currentLine st
   \<and> screenHeight (snd (findLoop r ls n li first st)) = screenHeight st
   \<and> searchPattern (snd (findLoop r ls n li first st)) = searchPattern st
   \<and> currentFile (snd (findLoop r ls n li first st)) = currentFile st"
  by (induction ls arbitrary: n li first st) (simp_all add: Let_def recordMatch_frame)

lemma findLoop_landed:
  "landedAt (currentLine st) (searchMatches st) first (currentMatchIndex st) \<Longrightarrow>
   landedAt (currentLine st) (searchMatches (snd (findLoop r ls n li first st)))
     (fst (findLoop r ls n li first st)) (currentMatchIndex (snd (findLoop r ls n li first st)))"
proof (induction ls arbitrary: n li first st)
  case Nil
  then show ?case by simp
next
  case (Cons l rest)
  have rec: "landedAt (currentLine (snd (recordMatch n l first st)))
               (searchMatches (snd (recordMatch n l first st)))
               (fst (recordMatch n l first st)) (currentMatchIndex (snd (recordMatch n l first st)))"
    using recordMatch_landed [OF Cons.prems] by (simp add: recordMatch_frame)
  show ?case
    using Cons.IH [OF rec] Cons.IH [OF Cons.prems] recordMatch_landed [OF Cons.prems]
    by (simp add: Let_def recordMatch_frame)
qed

lemma findLoop_extends:
  "\<exists>new. searchMatches (snd (findLoop r ls n li first st)) = searchMatches st @ new"
proof (induction ls arbitrary: n li first st)
  case Nil
  then show ?case by simp
next
  case (Cons l rest)
  show ?case
    using Cons.IH [of "n + 1" "snd (test r li l)" "fst (recordMatch n l first st)" "snd (recordMatch n l first st)"]
      Cons.IH [of "n + 1" "snd (test r li l)" first st]
    by (auto simp add: Let_def recordMatch_matches)
qed

lemma findLoop_cap:
  "length (searchMatches st) < MAX_SEARCH_RESULTS \<Longrightarrow>
   length (searchMatches (snd (findLoop r ls n li first st))) \<le> MAX_SEARCH_RESULTS"
proof (induction ls arbitrary: n li first st)
  case Nil
  then show ?case by simp
next
  case (Cons l rest)
  show ?case
    using Cons.prems
      Cons.IH [of "snd (recordMatch n l first st)" "n + 1" "snd (test r li l)" "fst (recordMatch n l first st)"]
      Cons.IH [of st "n + 1" "snd (test r li l)" first]
    by (auto simp add: Let_def recordMatch_matches)
qed

lemma landedAt_start: "landedAt c [] None i"
  by (simp add: landedAt_def)

lemma recordMatch_keeps_first: "fst (recordMatch n l (Some m) st) = Some m"
  by (simp add: recordMatch_def Let_def)

lemma recordMatch_untracked:
  "fst (recordMatch n l first st) = None \<Longrightarrow>
   currentMatchIndex (snd (recordMatch n l first st)) = currentMatchIndex st"
  by (simp add: recordMatch_def Let_def split: if_splits)

lemma findLoop_keeps_first: "fst (findLoop r ls n li (Some m) st) = Some m"
  by (induction ls arbitrary: n li st) (simp_all add: Let_def recordMatch_keeps_first)

lemma findLoop_untracked:
  "fst (findLoop r ls n li first st) = None \<Longrightarrow>
   currentMatchIndex (snd (findLoop r ls n li first st)) = currentMatchIndex st"
proof (induction ls arbitrary: n li first st)
  case Nil
  then show ?case by simp
next
  case (Cons l rest)
  show ?case
  proof (cases "fst (recordMatch n l first st)")
    case None
    then show ?thesis
      using Cons.prems Cons.IH [of "n + 1" "snd (test r li l)" first st]
        Cons.IH [of "n + 1" "snd (test r li l)" "fst (recordMatch n l first st)"
                    "snd (recordMatch n l first st)"]
      by (auto simp add: Let_def recordMatch_untracked split: if_splits)
  next
    case (Some m)
    then show ?thesis
      using Cons.prems Cons.IH [of "n + 1" "snd (test r li l)" first st]
      by (auto simp add: Let_def findLoop_keeps_first split: if_splits)
  qed
qed

lemma findReport_state:
  "fs f = Some chunks \<Longrightarrow>
   snd (findReport fs f p first st tbl1)
     = tbl1(f \<mapsto> (case first of None \<Rightarrow> st | Some m \<Rightarrow> st\<lparr>currentLine := line m\<rparr>))"
  by (simp add: findReport_def Let_def getLines_Some getTotalLines_Some split: option.split)

text \<open>
  \<open>findScan\<close> on a readable file: the state it stores, by the outcome of the loop.
\<close>

lemma findScan_state:
  assumes "fs f = Some chunks" and "searchMatches st2 = []"
  shows "\<exists>st'. snd (findScan r fs f p st2 tbl1) = tbl1(f \<mapsto> st')
          \<and> searchMatches st' = searchMatches (snd (findLoop r (readChunks [] chunks) 1 0 None st2))
          \<and> screenHeight st' = screenHeight st2
          \<and> searchPattern st' = searchPattern st2
          \<and> currentFile st' = currentFile st2
          \<and> (searchMatches st' = [] \<longrightarrow> currentLine st' = currentLine st2
                 \<and> currentMatchIndex st' = currentMatchIndex st2)
          \<and> (searchMatches st' \<noteq> [] \<longrightarrow>
                0 \<le> currentMatchIndex st'
              \<and> currentMatchIndex st' < int (length (searchMatches st'))
              \<and> currentLine st' = line (searchMatches st' ! nat (currentMatchIndex st'))
              \<and> ((\<exists>m \<in> set (searchMatches st'). currentLine st2 \<le> line m) \<longrightarrow>
                    currentLine st2 \<le> line (searchMatches st' ! nat (currentMatchIndex st'))
                  \<and> (\<forall>j < nat (currentMatchIndex st'). line (searchMatches st' ! j) < currentLine st2))
              \<and> ((\<forall>m \<in> set (searchMatches st'). line m < currentLine st2) \<longrightarrow>
                    currentMatchIndex st' = 0))"
proof -
  define looped where "looped = findLoop r (readChunks [] chunks) 1 0 None st2"
  define first where "first = fst looped"
  define st3 where "st3 = snd looped"
  have frame: "currentLine st3 = currentLine st2" "screenHeight st3 = screenHeight st2"
      "searchPattern st3 = searchPattern st2" "currentFile st3 = currentFile st2"
    using findLoop_frame [of r "readChunks [] chunks" 1 0 None st2]
    by (simp_all add: st3_def looped_def)
  have inv: "landedAt (currentLine st2) (searchMatches st3) first (currentMatchIndex st3)"
    using findLoop_landed [of st2 None r "readChunks [] chunks" 1 0] assms(2)
    by (simp add: landedAt_start st3_def first_def looped_def)
  have scan: "snd (findScan r fs f p st2 tbl1) =
      tbl1(f \<mapsto> (case (if first = None \<and> searchMatches st3 \<noteq> [] then at (searchMatches st3) 0 else first) of
                     None \<Rightarrow> (if first = None \<and> searchMatches st3 \<noteq> [] then st3\<lparr>currentMatchIndex := 0\<rparr> else st3)
                   | Some m \<Rightarrow> (if first = None \<and> searchMatches st3 \<noteq> [] then st3\<lparr>currentMatchIndex := 0\<rparr> else st3)
                                 \<lparr>currentLine := line m\<rparr>))"
    unfolding first_def st3_def looped_def using assms(1)
    by (simp add: findScan_def readFileLines_Some case_prod_beta Let_def findReport_state)
  show ?thesis
  proof (cases first)
    case None
    show ?thesis
    proof (cases "searchMatches st3 = []")
      case True
      have idx: "currentMatchIndex st3 = currentMatchIndex st2"
        using None findLoop_untracked [of r "readChunks [] chunks" 1 0 None st2]
        by (simp add: first_def st3_def looped_def)
      have "snd (findScan r fs f p st2 tbl1) = tbl1(f \<mapsto> st3)"
        using scan None True by simp
      then show ?thesis
        using True idx frame by (auto simp add: st3_def looped_def)
    next
      case False
      have before: "\<forall>m \<in> set (searchMatches st3). line m < currentLine st2"
        using inv None by (simp add: landedAt_def)
      have "snd (findScan r fs f p st2 tbl1)
              = tbl1(f \<mapsto> st3\<lparr>currentMatchIndex := 0, currentLine := line (searchMatches st3 ! 0)\<rparr>)"
        using scan None False by (simp add: at_def)
      then show ?thesis
        using False before frame
        by (intro exI [of _ "st3\<lparr>currentMatchIndex := 0, currentLine := line (searchMatches st3 ! 0)\<rparr>"])
           (auto simp add: st3_def looped_def)
    qed
  next
    case (Some m)
    have props: "0 \<le> currentMatchIndex st3" "currentMatchIndex st3 < int (length (searchMatches st3))"
        "searchMatches st3 ! nat (currentMatchIndex st3) = m" "currentLine st2 \<le> line m"
        "\<forall>j < nat (currentMatchIndex st3). line (searchMatches st3 ! j) < currentLine st2"
      using inv Some by (simp_all add: landedAt_def)
    have ne: "searchMatches st3 \<noteq> []"
      using props(1,2) by auto
    have mem: "m \<in> set (searchMatches st3)"
      using props(1,2,3) by (metis nth_mem nat_less_iff)
    have "snd (findScan r fs f p st2 tbl1) = tbl1(f \<mapsto> st3\<lparr>currentLine := line m\<rparr>)"
      using scan Some by simp
    then show ?thesis
      using props ne mem frame
      by (intro exI [of _ "st3\<lparr>currentLine := line m\<rparr>"])
         (auto simp add: st3_def looped_def)
  qed
qed

subsection \<open>Where a search lands\<close>

lemma find_tool_compiled:
  "(if b = Some True then newRegExp p ''gi'' else newRegExp (escapeRegExp p) ''gi'') = Inr r \<Longrightarrow>
   find_tool newRegExp fs f p b tbl =
     findScan r fs f p
       ((fst (getNavigatorState f tbl))
          \<lparr>searchMatches := [], currentMatchIndex := - 1, searchPattern := Some p\<rparr>)
       (snd (getNavigatorState f tbl))"
  by (auto simp add: find_tool_def Let_def case_prod_beta split: if_splits sum.splits)

lemma find_tool_failed:
  "(if b = Some True then newRegExp p ''gi'' else newRegExp (escapeRegExp p) ''gi'') = Inl msg \<Longrightarrow>
   snd (find_tool newRegExp fs f p b tbl) =
     (snd (getNavigatorState f tbl))
       (f \<mapsto> (fst (getNavigatorState f tbl))\<lparr>searchMatches := [], currentMatchIndex := - 1\<rparr>)"
  by (auto simp add: find_tool_def Let_def case_prod_beta split: if_splits sum.splits)

lemma findReport_table: "findReport fs f p first st (tbl(f \<mapsto> x)) = findReport fs f p first st tbl"
  by (simp add: findReport_def Let_def split: option.split sum.split)

lemma findScan_table: "findScan r fs f p st (tbl(f \<mapsto> x)) = findScan r fs f p st tbl"
  by (simp add: findScan_def Let_def case_prod_beta findReport_table split: sum.split)

lemma findScan_stored: "findScan r fs f p st (snd (getNavigatorState f tbl)) = findScan r fs f p st tbl"
  by (simp add: getNavigatorState_def findScan_table split: option.split)

text \<open>A successful find does not depend on the search fields stored before.\<close>

lemma find_tool_discards:
  assumes "(if b = Some True then newRegExp p ''gi'' else newRegExp (escapeRegExp p) ''gi'') = Inr r"
  shows "find_tool newRegExp fs f p b
           (tbl(f \<mapsto> (fst (getNavigatorState f tbl))
                         \<lparr>searchPattern := sp, searchMatches := sm, currentMatchIndex := i\<rparr>))
         = find_tool newRegExp fs f p b tbl"
proof -
  have stored: "getNavigatorState f (tbl(f \<mapsto> x)) = (x, tbl(f \<mapsto> x))" for x
    by (simp add: getNavigatorState_def)
  show ?thesis
    by (simp add: find_tool_compiled [where newRegExp = newRegExp and p = p and b = b, OF assms] stored findScan_table findScan_stored)
qed

lemma handleRequest_same_dispatch:
  "dispatch newRegExp fs req tbl1 = dispatch newRegExp fs req tbl2 \<Longrightarrow>
   filenameOf req = [] \<or> fs (filenameOf req) \<noteq> None \<Longrightarrow>
   handleRequest newRegExp fs req tbl1 = handleRequest newRegExp fs req tbl2"
  by (auto simp add: handleRequest_def Let_def)

lemma find_landing:
  assumes "fs f = Some chunks"
      and "snd (handleRequest newRegExp fs (Find f p b) tbl) f = Some st'"
      and "searchMatches st' \<noteq> []"
  shows "\<exists>r. (if b = Some True then newRegExp p ''gi'' else newRegExp (escapeRegExp p) ''gi'') = Inr r
          \<and> searchMatches st' = searchMatches (snd (findLoop r (readChunks [] chunks) 1 0 None
               ((fst (getNavigatorState f tbl))
                  \<lparr>searchMatches := [], currentMatchIndex := - 1, searchPattern := Some p\<rparr>)))"
    and "0 \<le> currentMatchIndex st'"
    and "currentMatchIndex st' < int (length (searchMatches st'))"
    and "currentLine st' = line (searchMatches st' ! nat (currentMatchIndex st'))"
    and "(\<exists>m \<in> set (searchMatches st'). currentLine (fst (getNavigatorState f tbl)) \<le> line m) \<longrightarrow>
           currentLine (fst (getNavigatorState f tbl)) \<le> line (searchMatches st' ! nat (currentMatchIndex st'))
         \<and> (\<forall>j < nat (currentMatchIndex st').
               line (searchMatches st' ! j) < currentLine (fst (getNavigatorState f tbl)))"
    and "(\<forall>m \<in> set (searchMatches st'). line m < currentLine (fst (getNavigatorState f tbl))) \<longrightarrow>
           currentMatchIndex st' = 0"
    and "searchPattern st' = Some p"
    and "screenHeight st' = screenHeight (fst (getNavigatorState f tbl))"
    and "currentFile st' = currentFile (fst (getNavigatorState f tbl))"
proof -
  define st0 where "st0 = fst (getNavigatorState f tbl)"
  define st2 where "st2 = st0\<lparr>searchMatches := [], currentMatchIndex := - 1, searchPattern := Some p\<rparr>"
  have tool: "snd (find_tool newRegExp fs f p b tbl) f = Some st'"
    using assms(1,2) by (simp add: snd_handleRequest)
  obtain r where r: "(if b = Some True then newRegExp p ''gi'' else newRegExp (escapeRegExp p) ''gi'') = Inr r"
  proof (cases "if b = Some True then newRegExp p ''gi'' else newRegExp (escapeRegExp p) ''gi''")
    case (Inl msg)
    have "searchMatches st' = []"
      using tool find_tool_failed [where newRegExp = newRegExp and p = p and b = b and fs = fs and f = f
          and tbl = tbl, OF Inl] by auto
    then show ?thesis using assms(3) by simp
  next
    case (Inr r)
    then show ?thesis using that by simp
  qed
  have scan: "snd (findScan r fs f p st2 tbl) f = Some st'"
    using tool by (simp add: find_tool_compiled [where newRegExp = newRegExp and p = p and b = b, OF r] findScan_stored st2_def st0_def)
  have empty: "searchMatches st2 = []"
    by (simp add: st2_def)
  obtain st where st: "snd (findScan r fs f p st2 tbl) = tbl(f \<mapsto> st)"
      "searchMatches st = searchMatches (snd (findLoop r (readChunks [] chunks) 1 0 None st2))"
      "screenHeight st = screenHeight st2" "searchPattern st = searchPattern st2"
      "currentFile st = currentFile st2"
      "searchMatches st \<noteq> [] \<longrightarrow>
                0 \<le> currentMatchIndex st
              \<and> currentMatchIndex st < int (length (searchMatches st))
              \<and> currentLine st = line (searchMatches st ! nat (currentMatchIndex st))
              \<and> ((\<exists>m \<in> set (searchMatches st). currentLine st2 \<le> line m) \<longrightarrow>
                    currentLine st2 \<le> line (searchMatches st ! nat (currentMatchIndex st))
                  \<and> (\<forall>j < nat (currentMatchIndex st). line (searchMatches st ! j) < currentLine st2))
              \<and> ((\<forall>m \<in> set (searchMatches st). line m < currentLine st2) \<longrightarrow>
                    currentMatchIndex st = 0)"
    using findScan_state [where fs = fs and f = f and chunks = chunks and ?st2.0 = st2
        and r = r and p = p and ?tbl1.0 = tbl] assms(1) empty by blast
  have eq: "st = st'"
    using scan st(1) by simp
  have cur: "currentLine st2 = currentLine st0" "screenHeight st2 = screenHeight st0"
      "currentFile st2 = currentFile st0" "searchPattern st2 = Some p"
    by (simp_all add: st2_def)
  show "\<exists>r. (if b = Some True then newRegExp p ''gi'' else newRegExp (escapeRegExp p) ''gi'') = Inr r
          \<and> searchMatches st' = searchMatches (snd (findLoop r (readChunks [] chunks) 1 0 None
               ((fst (getNavigatorState f tbl))
                  \<lparr>searchMatches := [], currentMatchIndex := - 1, searchPattern := Some p\<rparr>)))"
    using r st(2) eq by (auto simp add: st2_def st0_def)
  show "0 \<le> currentMatchIndex st'" "currentMatchIndex st' < int (length (searchMatches st'))"
    "currentLine st' = line (searchMatches st' ! nat (currentMatchIndex st'))"
    using st(6) assms(3) eq by simp_all
  show "(\<exists>m \<in> set (searchMatches st'). currentLine (fst (getNavigatorState f tbl)) \<le> line m) \<longrightarrow>
           currentLine (fst (getNavigatorState f tbl)) \<le> line (searchMatches st' ! nat (currentMatchIndex st'))
         \<and> (\<forall>j < nat (currentMatchIndex st').
               line (searchMatches st' ! j) < currentLine (fst (getNavigatorState f tbl)))"
    using st(6) assms(3) eq cur(1) by (simp add: st0_def)
  show "(\<forall>m \<in> set (searchMatches st'). line m < currentLine (fst (getNavigatorState f tbl))) \<longrightarrow>
           currentMatchIndex st' = 0"
    using st(6) assms(3) eq cur(1) by (simp add: st0_def)
  show "searchPattern st' = Some p" "screenHeight st' = screenHeight (fst (getNavigatorState f tbl))"
    "currentFile st' = currentFile (fst (getNavigatorState f tbl))"
    using st(3,4,5) eq cur by (simp_all add: st0_def)
qed

text \<open>
  Claim C2. When a \<^verbatim>\<open>find\<close> on a readable file leaves at least one match, the match index
  is a valid index; it is the first index whose match is at or after the cursor held
  before the search when there is such a match, and 0 when every match is before that
  cursor; the cursor is the line of the match at that index; and the previous search is
  gone: the stored pattern is the new one, and the outcome (text and table) is the same
  whatever pattern, matches and match index were stored before.
\<close>

theorem find_lands_at_or_after_cursor:
  assumes "fs filename = Some chunks"
      and "snd (handleRequest newRegExp fs (Find filename pattern is_regex) tbl) filename = Some st'"
      and "searchMatches st' \<noteq> []"
  shows "0 \<le> currentMatchIndex st' \<and> currentMatchIndex st' < int (length (searchMatches st'))
       \<and> ((\<exists>m \<in> set (searchMatches st'). currentLine (fst (getNavigatorState filename tbl)) \<le> line m) \<longrightarrow>
             currentLine (fst (getNavigatorState filename tbl))
               \<le> line (searchMatches st' ! nat (currentMatchIndex st'))
           \<and> (\<forall>j < nat (currentMatchIndex st').
                 line (searchMatches st' ! j) < currentLine (fst (getNavigatorState filename tbl))))
       \<and> ((\<forall>m \<in> set (searchMatches st'). line m < currentLine (fst (getNavigatorState filename tbl))) \<longrightarrow>
             currentMatchIndex st' = 0)
       \<and> currentLine st' = line (searchMatches st' ! nat (currentMatchIndex st'))
       \<and> searchPattern st' = Some pattern
       \<and> (\<forall>sp sm i.
             handleRequest newRegExp fs (Find filename pattern is_regex)
               (tbl(filename \<mapsto> (fst (getNavigatorState filename tbl))
                      \<lparr>searchPattern := sp, searchMatches := sm, currentMatchIndex := i\<rparr>))
             = handleRequest newRegExp fs (Find filename pattern is_regex) tbl)"
proof -
  note landing = find_landing [where fs = fs and f = filename and chunks = chunks
      and newRegExp = newRegExp and p = pattern and b = is_regex and tbl = tbl and st' = st',
      OF assms]
  obtain r where r: "(if is_regex = Some True then newRegExp pattern ''gi''
                      else newRegExp (escapeRegExp pattern) ''gi'') = Inr r"
    using landing(1) by blast
  have discard: "handleRequest newRegExp fs (Find filename pattern is_regex)
               (tbl(filename \<mapsto> (fst (getNavigatorState filename tbl))
                      \<lparr>searchPattern := sp, searchMatches := sm, currentMatchIndex := i\<rparr>))
             = handleRequest newRegExp fs (Find filename pattern is_regex) tbl" for sp sm i
    using assms(1) find_tool_discards [where newRegExp = newRegExp and p = pattern
        and b = is_regex and fs = fs and f = filename and tbl = tbl
        and sp = sp and sm = sm and i = i, OF r]
    by (intro handleRequest_same_dispatch) simp_all
  show ?thesis
    using landing(2-7) discard by blast
qed

theorem find_lands_at_or_after_cursor_witness:
  "threeLines ''f'' = Some threeLinesChunks
   \<and> afterSearch ''f'' = Some (the (afterSearch ''f''))
   \<and> map line (searchMatches (the (afterSearch ''f''))) = [1, 3]
   \<and> currentLine (fst (getNavigatorState ''f'' Map.empty)) = 1
   \<and> currentMatchIndex (the (afterSearch ''f'')) = 0
   \<and> currentLine (the (afterSearch ''f''))
       = line (searchMatches (the (afterSearch ''f'')) ! nat (currentMatchIndex (the (afterSearch ''f''))))
   \<and> afterWrap ''f'' = Some (the (afterWrap ''f''))
   \<and> map line (searchMatches (the (afterWrap ''f''))) = [1]
   \<and> currentLine (fst (getNavigatorState ''f'' atLineThree)) = 3
   \<and> currentMatchIndex (the (afterWrap ''f'')) = 0
   \<and> currentLine (the (afterWrap ''f''))
       = line (searchMatches (the (afterWrap ''f'')) ! nat (currentMatchIndex (the (afterWrap ''f''))))"
proof -
  have a: "threeLines ''f'' = Some threeLinesChunks"
    by (simp add: threeLines_def)
  have m: "map_option (map line \<circ> searchMatches) (afterSearch ''f'') = Some [1, 3]"
    by code_simp
  have b: "snd (handleRequest fragmentRegExp threeLines (Find ''f'' ''e'' None) Map.empty) ''f''
             = Some (the (afterSearch ''f''))"
    using m by (auto simp add: afterSearch_def)
  have c: "searchMatches (the (afterSearch ''f'')) \<noteq> []"
    using m by auto
  have cur: "currentLine (fst (getNavigatorState ''f'' Map.empty)) = 1"
    by (simp add: getNavigatorState_def initialState_def)
  have w: "map_option (map line \<circ> searchMatches) (afterWrap ''f'') = Some [1]"
    by code_simp
  have b': "snd (handleRequest fragmentRegExp threeLines (Find ''f'' ''on'' None) atLineThree) ''f''
             = Some (the (afterWrap ''f''))"
    using w by (auto simp add: afterWrap_def)
  have c': "searchMatches (the (afterWrap ''f'')) \<noteq> []"
    using w by auto
  have cur': "currentLine (fst (getNavigatorState ''f'' atLineThree)) = 3"
    by code_simp
  note first = find_lands_at_or_after_cursor [where fs = threeLines and filename = "''f''"
        and chunks = threeLinesChunks and newRegExp = fragmentRegExp and pattern = "''e''"
        and is_regex = None and tbl = Map.empty and st' = "the (afterSearch ''f'')", OF a b c]
  note wrap = find_lands_at_or_after_cursor [where fs = threeLines and filename = "''f''"
        and chunks = threeLinesChunks and newRegExp = fragmentRegExp and pattern = "''on''"
        and is_regex = None and tbl = atLineThree and st' = "the (afterWrap ''f'')", OF a b' c']
  have i0: "currentMatchIndex (the (afterSearch ''f'')) = 0"
  proof -
    have "\<forall>j < nat (currentMatchIndex (the (afterSearch ''f''))).
            line (searchMatches (the (afterSearch ''f'')) ! j) < 1"
      using first m cur by auto
    moreover have "line (searchMatches (the (afterSearch ''f'')) ! 0) = 1"
      using m by auto
    moreover have "0 \<le> currentMatchIndex (the (afterSearch ''f''))"
      using first by simp
    ultimately show ?thesis
      by (metis less_irrefl nat_0_iff not_gr_zero order_antisym)
  qed
  have w0: "currentMatchIndex (the (afterWrap ''f'')) = 0"
    using wrap w cur' by auto
  show ?thesis
    using a b b' m w cur cur' i0 w0 first wrap
    by (auto simp add: afterSearch_def afterWrap_def)
qed

subsection \<open>Cycling through the matches\<close>

lemma smod_nonneg: "0 \<le> a \<Longrightarrow> 0 < b \<Longrightarrow> a smod b = a mod (b::int)"
  by (cases "a = 0") (simp_all add: signed_modulo_int_def)

lemma next_match_step:
  assumes "fs f = Some chunks" and "tbl f = Some st" and "searchMatches st \<noteq> []"
      and "0 \<le> currentMatchIndex st" and "currentMatchIndex st < int (length (searchMatches st))"
  shows "snd (handleRequest newRegExp fs (NextMatch f) tbl) =
           tbl(f \<mapsto> st\<lparr>currentMatchIndex := (currentMatchIndex st + 1) mod int (length (searchMatches st)),
                        currentLine := line (searchMatches st !
                           nat ((currentMatchIndex st + 1) mod int (length (searchMatches st))))\<rparr>)"
proof -
  have n: "0 < int (length (searchMatches st))"
    using assms(3) by simp
  have m: "(currentMatchIndex st + 1) smod int (length (searchMatches st))
             = (currentMatchIndex st + 1) mod int (length (searchMatches st))"
    using assms(4) n by (intro smod_nonneg) simp_all
  have bounds: "0 \<le> (currentMatchIndex st + 1) mod int (length (searchMatches st))"
      "(currentMatchIndex st + 1) mod int (length (searchMatches st)) < int (length (searchMatches st))"
    using n by simp_all
  show ?thesis
    using assms(1,2,3) bounds
    by (simp add: snd_handleRequest next_match_def getNavigatorState_def showMatch_def m at_def
          getLines_Some getTotalLines_Some Let_def)
qed

lemma next_match_iterate:
  assumes "fs f = Some chunks" and "tbl f = Some st" and "searchMatches st \<noteq> []"
      and "0 \<le> currentMatchIndex st" and "currentMatchIndex st < int (length (searchMatches st))"
  shows "((\<lambda>t. snd (handleRequest newRegExp fs (NextMatch f) t)) ^^ Suc k) tbl =
           tbl(f \<mapsto> st\<lparr>currentMatchIndex := (currentMatchIndex st + int (Suc k)) mod int (length (searchMatches st)),
                        currentLine := line (searchMatches st !
                           nat ((currentMatchIndex st + int (Suc k)) mod int (length (searchMatches st))))\<rparr>)"
proof -
  define F where "F = (\<lambda>t. snd (handleRequest newRegExp fs (NextMatch f) t))"
  define n where "n = int (length (searchMatches st))"
  define after where
    "after = (\<lambda>j. st\<lparr>currentMatchIndex := (currentMatchIndex st + int j) mod n,
                     currentLine := line (searchMatches st ! nat ((currentMatchIndex st + int j) mod n))\<rparr>)"
  have n: "0 < n"
    using assms(3) by (simp add: n_def)
  have step: "F (tbl(f \<mapsto> after j)) = tbl(f \<mapsto> after (Suc j))" for j
  proof -
    have i: "0 \<le> (currentMatchIndex st + int j) mod n" "(currentMatchIndex st + int j) mod n < n"
      using n by simp_all
    have arith: "((currentMatchIndex st + int j) mod n + 1) mod n
                   = (currentMatchIndex st + int (Suc j)) mod n"
    proof -
      have e: "currentMatchIndex st + int (Suc j) = currentMatchIndex st + int j + 1"
        by simp
      show ?thesis
        unfolding e by (rule mod_add_left_eq)
    qed
    have "F (tbl(f \<mapsto> after j)) =
           (tbl(f \<mapsto> after j))(f \<mapsto> (after j)\<lparr>currentMatchIndex :=
                 (currentMatchIndex (after j) + 1) mod int (length (searchMatches (after j))),
               currentLine := line (searchMatches (after j) !
                 nat ((currentMatchIndex (after j) + 1) mod int (length (searchMatches (after j)))))\<rparr>)"
      unfolding F_def using assms(1,3) i
      by (intro next_match_step [where chunks = chunks]) (simp_all add: after_def n_def)
    also have "\<dots> = tbl(f \<mapsto> after (Suc j))"
      using arith by (simp add: after_def n_def)
    finally show ?thesis .
  qed
  have first: "F tbl = tbl(f \<mapsto> after (Suc 0))"
    unfolding F_def after_def n_def
    using next_match_step [where fs = fs and f = f and chunks = chunks and tbl = tbl and st = st
        and newRegExp = newRegExp] assms
    by simp
  have "(F ^^ Suc k) tbl = tbl(f \<mapsto> after (Suc k))"
  proof (induction k)
    case 0
    show ?case using first by simp
  next
    case (Suc k)
    have "(F ^^ Suc (Suc k)) tbl = F ((F ^^ Suc k) tbl)"
      by simp
    also have "\<dots> = F (tbl(f \<mapsto> after (Suc k)))"
      by (simp only: Suc.IH)
    also have "\<dots> = tbl(f \<mapsto> after (Suc (Suc k)))"
      by (rule step)
    finally show ?case .
  qed
  then show ?thesis
    by (simp only: F_def after_def n_def)
qed

text \<open>
  Claim C7. After a \<^verbatim>\<open>find\<close> on a readable file that left \<open>n\<close> matches, \<open>n > 0\<close>, making the
  request \<^verbatim>\<open>next_match\<close> \<open>n\<close> times brings the state table back to what it was after the
  \<^verbatim>\<open>find\<close>: the same cursor, the same match index, and everything else untouched.
\<close>

theorem next_match_cycle:
  assumes "fs filename = Some chunks"
      and "snd (handleRequest newRegExp fs (Find filename pattern is_regex) tbl) = tbl1"
      and "tbl1 filename = Some st"
      and "searchMatches st \<noteq> []"
  shows "((\<lambda>t. snd (handleRequest newRegExp fs (NextMatch filename) t)) ^^ length (searchMatches st)) tbl1
           = tbl1"
proof -
  have st: "snd (handleRequest newRegExp fs (Find filename pattern is_regex) tbl) filename = Some st"
    using assms(2,3) by simp
  note landing = find_landing [where fs = fs and f = filename and chunks = chunks
      and newRegExp = newRegExp and p = pattern and b = is_regex and tbl = tbl and st' = st,
      OF assms(1) st assms(4)]
  obtain k where k: "length (searchMatches st) = Suc k"
    using assms(4) by (cases "searchMatches st") simp_all
  have again: "(currentMatchIndex st + int (Suc k)) mod int (length (searchMatches st)) = currentMatchIndex st"
    using landing(2,3) k by simp
  have "((\<lambda>t. snd (handleRequest newRegExp fs (NextMatch filename) t)) ^^ Suc k) tbl1 =
           tbl1(filename \<mapsto> st\<lparr>currentMatchIndex := (currentMatchIndex st + int (Suc k)) mod int (length (searchMatches st)),
                        currentLine := line (searchMatches st !
                           nat ((currentMatchIndex st + int (Suc k)) mod int (length (searchMatches st))))\<rparr>)"
    using assms(1,3,4) landing(2,3) by (intro next_match_iterate [where chunks = chunks])
  also have "\<dots> = tbl1(filename \<mapsto> st)"
    unfolding again using landing(4) [symmetric] by simp
  also have "\<dots> = tbl1"
    using assms(3) by (simp add: map_upd_triv)
  finally show ?thesis
    by (simp add: k)
qed

theorem next_match_cycle_witness:
  "threeLines ''f'' = Some threeLinesChunks
   \<and> afterSearch ''f'' = Some (the (afterSearch ''f''))
   \<and> searchMatches (the (afterSearch ''f'')) \<noteq> []
   \<and> ((\<lambda>t. snd (handleRequest fragmentRegExp threeLines (NextMatch ''f'') t))
         ^^ length (searchMatches (the (afterSearch ''f'')))) afterSearch = afterSearch"
proof -
  have a: "threeLines ''f'' = Some threeLinesChunks"
    by (simp add: threeLines_def)
  have m: "map_option searchMatches (afterSearch ''f'')
             = Some [SearchMatch 1 ''one'', SearchMatch 3 ''three'']"
    by code_simp
  have b: "snd (handleRequest fragmentRegExp threeLines (Find ''f'' ''e'' None) Map.empty) = afterSearch"
    by (simp add: afterSearch_def)
  have c: "afterSearch ''f'' = Some (the (afterSearch ''f''))"
    using m by auto
  have d: "searchMatches (the (afterSearch ''f'')) \<noteq> []"
    using m by auto
  show ?thesis
    using a c d next_match_cycle [where fs = threeLines and filename = "''f''"
        and chunks = threeLinesChunks and newRegExp = fragmentRegExp and pattern = "''e''"
        and is_regex = None and tbl = Map.empty and ?tbl1.0 = afterSearch
        and st = "the (afterSearch ''f'')", OF a b c d]
    by simp
qed

subsection \<open>The invariant of the state\<close>

text \<open>
  On a readable file that is not empty, every tool keeps the state of its file within
  the file (\<open>withinFile\<close>), as long as no negative page size is passed to \<^verbatim>\<open>go_to_line\<close>.
  The state is the one the next tool sees: the stored one, or the initial one.
\<close>

lemma findLoop_lines:
  "m \<in> set (searchMatches (snd (findLoop r ls n li first st))) \<Longrightarrow>
   m \<in> set (searchMatches st) \<or> (n \<le> line m \<and> line m < n + int (length ls))"
proof (induction ls arbitrary: n li first st)
  case Nil
  then show ?case by simp
next
  case (Cons l rest)
  show ?case
  proof (cases "fst (test r li l)")
    case False
    then have "m \<in> set (searchMatches (snd (findLoop r rest (n + 1) (snd (test r li l)) first st)))"
      using Cons.prems by simp
    then have "m \<in> set (searchMatches st) \<or> (n + 1 \<le> line m \<and> line m < n + 1 + int (length rest))"
      by (rule Cons.IH)
    then show ?thesis by auto
  next
    case True
    define st1 where "st1 = snd (recordMatch n l first st)"
    have ms1: "searchMatches st1 = searchMatches st @ [SearchMatch n l]"
      by (simp add: st1_def recordMatch_matches)
    have "m \<in> set (searchMatches st1) \<or> (n + 1 \<le> line m \<and> line m < n + 1 + int (length rest))"
    proof (cases "MAX_SEARCH_RESULTS \<le> length (searchMatches st1)")
      case True
      then have "m \<in> set (searchMatches st1)"
        using Cons.prems \<open>fst (test r li l)\<close> by (simp add: Let_def st1_def)
      then show ?thesis by simp
    next
      case False
      then have "m \<in> set (searchMatches (snd (findLoop r rest (n + 1) (snd (test r li l))
                    (fst (recordMatch n l first st)) st1)))"
        using Cons.prems \<open>fst (test r li l)\<close> by (simp add: Let_def st1_def)
      then show ?thesis
        by (rule Cons.IH)
    qed
    then show ?thesis
      using ms1 by auto
  qed
qed

lemma getNavigatorState_stored: "getNavigatorState f (tbl(f \<mapsto> st)) = (st, tbl(f \<mapsto> st))"
  by (simp add: getNavigatorState_def)

lemma snd_getNavigatorState: 
  "snd (getNavigatorState f tbl) = tbl(f \<mapsto> fst (getNavigatorState f tbl))"
  by (auto simp add: getNavigatorState_def split: option.splits)

lemma page_up_keeps:
  assumes "fs f = Some chunks" and "withinFile totalLines (fst (getNavigatorState f tbl))"
  shows "withinFile totalLines (fst (getNavigatorState f (snd (page_up fs f tbl))))"
  using assms
  by (simp add: page_up_def Let_def case_prod_beta getLines_Some getTotalLines_Some
        snd_getNavigatorState getNavigatorState_stored withinFile_def)

lemma page_down_keeps:
  assumes "fs f = Some chunks" and "totalLines = int (length (readChunks [] chunks))"
      and "withinFile totalLines (fst (getNavigatorState f tbl))"
  shows "withinFile totalLines (fst (getNavigatorState f (snd (page_down fs f tbl))))"
  using assms
  by (simp add: page_down_def Let_def case_prod_beta getLines_Some getTotalLines_Some
        snd_getNavigatorState getNavigatorState_stored withinFile_def)

lemma go_to_line_keeps:
  assumes "fs f = Some chunks" and "totalLines = int (length (readChunks [] chunks))" and "0 < totalLines"
      and "withinFile totalLines (fst (getNavigatorState f tbl))"
      and "h = None \<or> (\<exists>k. h = Some k \<and> 0 \<le> k)"
  shows "withinFile totalLines (fst (getNavigatorState f (snd (go_to_line fs f ln h tbl))))"
  using assms
  by (auto simp add: go_to_line_readable Let_def getNavigatorState_stored withinFile_def
        split: if_splits)

lemma showMatch_keeps:
  assumes "fs f = Some chunks" and "withinFile totalLines st" and "searchMatches st \<noteq> []"
  shows "withinFile totalLines (fst (getNavigatorState f (snd (showMatch fs f st tbl1))))"
  using assms
  by (auto simp add: showMatch_def Let_def at_def getLines_Some getTotalLines_Some
        getNavigatorState_stored withinFile_def)

lemma next_match_keeps:
  assumes "fs f = Some chunks" and "withinFile totalLines (fst (getNavigatorState f tbl))"
  shows "withinFile totalLines (fst (getNavigatorState f (snd (next_match fs f tbl))))"
proof (cases "searchMatches (fst (getNavigatorState f tbl)) = []")
  case True
  then show ?thesis
    using assms(2)
    by (simp add: next_match_def case_prod_beta snd_getNavigatorState getNavigatorState_stored)
next
  case False
  define st where "st = fst (getNavigatorState f tbl)"
  have n: "0 < int (length (searchMatches st))"
    using False by (simp add: st_def)
  have i: "0 \<le> currentMatchIndex st"
    using assms(2) False by (simp add: withinFile_def st_def)
  have m: "(currentMatchIndex st + 1) smod int (length (searchMatches st))
             = (currentMatchIndex st + 1) mod int (length (searchMatches st))"
    using i n by (intro smod_nonneg) simp_all
  have "withinFile totalLines (st\<lparr>currentMatchIndex :=
           (currentMatchIndex st + 1) smod int (length (searchMatches st))\<rparr>)"
    unfolding m using assms(2) n by (simp add: withinFile_def st_def)
  then show ?thesis
    using False assms(1)
    by (simp add: next_match_def case_prod_beta st_def showMatch_keeps)
qed

lemma prev_match_keeps:
  assumes "fs f = Some chunks" and "withinFile totalLines (fst (getNavigatorState f tbl))"
  shows "withinFile totalLines (fst (getNavigatorState f (snd (prev_match fs f tbl))))"
proof (cases "searchMatches (fst (getNavigatorState f tbl)) = []")
  case True
  then show ?thesis
    using assms(2)
    by (simp add: prev_match_def case_prod_beta snd_getNavigatorState getNavigatorState_stored)
next
  case False
  define st where "st = fst (getNavigatorState f tbl)"
  have "withinFile totalLines
          (if currentMatchIndex st - 1 < 0
           then st\<lparr>currentMatchIndex := int (length (searchMatches st)) - 1\<rparr>
           else st\<lparr>currentMatchIndex := currentMatchIndex st - 1\<rparr>)"
    using assms(2) False by (auto simp add: withinFile_def st_def)
  then show ?thesis
    using False assms(1) showMatch_keeps [where fs = fs and f = f and chunks = chunks
        and totalLines = totalLines and ?tbl1.0 = "snd (getNavigatorState f tbl)"
        and st = "if currentMatchIndex st - 1 < 0
           then st\<lparr>currentMatchIndex := int (length (searchMatches st)) - 1\<rparr>
           else st\<lparr>currentMatchIndex := currentMatchIndex st - 1\<rparr>"]
    by (auto simp add: prev_match_def case_prod_beta st_def Let_def)
qed

lemma find_tool_keeps:
  assumes "fs f = Some chunks" and "totalLines = int (length (readChunks [] chunks))"
      and "withinFile totalLines (fst (getNavigatorState f tbl))"
  shows "withinFile totalLines (fst (getNavigatorState f (snd (find_tool newRegExp fs f p b tbl))))"
proof (cases "if b = Some True then newRegExp p ''gi'' else newRegExp (escapeRegExp p) ''gi''")
  case (Inl msg)
  show ?thesis
    using assms(3)
    by (simp add: find_tool_failed [where newRegExp = newRegExp and p = p and b = b, OF Inl] getNavigatorState_stored withinFile_def)
next
  case (Inr r)
  define st2 where "st2 = (fst (getNavigatorState f tbl))
          \<lparr>searchMatches := [], currentMatchIndex := - 1, searchPattern := Some p\<rparr>"
  have empty: "searchMatches st2 = []"
    by (simp add: st2_def)
  obtain st where st: "snd (findScan r fs f p st2 tbl) = tbl(f \<mapsto> st)"
      "searchMatches st = searchMatches (snd (findLoop r (readChunks [] chunks) 1 0 None st2))"
      "screenHeight st = screenHeight st2"
      "searchMatches st = [] \<longrightarrow> currentLine st = currentLine st2"
      "searchMatches st \<noteq> [] \<longrightarrow>
                0 \<le> currentMatchIndex st
              \<and> currentMatchIndex st < int (length (searchMatches st))
              \<and> currentLine st = line (searchMatches st ! nat (currentMatchIndex st))"
    using findScan_state [where fs = fs and f = f and chunks = chunks and ?st2.0 = st2
        and r = r and p = p and ?tbl1.0 = tbl] assms(1) empty by blast
  have cap: "length (searchMatches st) \<le> MAX_SEARCH_RESULTS"
    unfolding st(2) by (rule findLoop_cap) (simp add: empty MAX_SEARCH_RESULTS_def)
  have range: "\<forall>m \<in> set (searchMatches st). 1 \<le> line m \<and> line m \<le> totalLines"
  proof
    fix m
    assume "m \<in> set (searchMatches st)"
    then have "m \<in> set (searchMatches (snd (findLoop r (readChunks [] chunks) 1 0 None st2)))"
      by (simp add: st(2))
    then have "m \<in> set (searchMatches st2) \<or> (1 \<le> line m \<and> line m < 1 + int (length (readChunks [] chunks)))"
      by (rule findLoop_lines)
    then show "1 \<le> line m \<and> line m \<le> totalLines"
      using empty assms(2) by simp
  qed
  have cursor: "1 \<le> currentLine st \<and> currentLine st \<le> totalLines"
  proof (cases "searchMatches st = []")
    case True
    then show ?thesis
      using st(4) assms(3) by (simp add: st2_def withinFile_def)
  next
    case False
    then have "searchMatches st ! nat (currentMatchIndex st) \<in> set (searchMatches st)"
      using st(5) by (intro nth_mem) auto
    then show ?thesis
      using range st(5) False by auto
  qed
  have "withinFile totalLines st"
    using cap range cursor st(3,5) assms(3) by (simp add: withinFile_def st2_def)
  then show ?thesis
    by (simp add: find_tool_compiled [where newRegExp = newRegExp and p = p and b = b, OF Inr] findScan_stored st2_def [symmetric] st(1)
          getNavigatorState_stored)
qed

lemma tools_keep_state_within_file:
  assumes "fs (filenameOf req) = Some chunks"
      and "totalLines = int (length (readChunks [] chunks))" and "0 < totalLines"
      and "withinFile totalLines (fst (getNavigatorState (filenameOf req) tbl))"
      and "\<forall>f ln k. req = GoToLine f ln (Some k) \<longrightarrow> 0 \<le> k"
  shows "withinFile totalLines
           (fst (getNavigatorState (filenameOf req) (snd (handleRequest newRegExp fs req tbl))))"
proof (cases req)
  case (GoToLine f ln h)
  have "h = None \<or> (\<exists>k. h = Some k \<and> 0 \<le> k)"
    using assms(5) GoToLine by (cases h) auto
  then show ?thesis
    using assms(1-4) GoToLine by (simp add: snd_handleRequest go_to_line_keeps)
next
  case (Find f p b)
  then show ?thesis
    using assms(1-4) by (simp add: snd_handleRequest find_tool_keeps)
next
  case (NextMatch f)
  then show ?thesis
    using assms(1-4) by (simp add: snd_handleRequest next_match_keeps)
next
  case (PrevMatch f)
  then show ?thesis
    using assms(1-4) by (simp add: snd_handleRequest prev_match_keeps)
next
  case (PageUp f)
  then show ?thesis
    using assms(1-4) by (simp add: snd_handleRequest page_up_keeps)
next
  case (PageDown f)
  then show ?thesis
    using assms(1-4) by (simp add: snd_handleRequest page_down_keeps)
next
  case (OtherTool f name)
  then show ?thesis
    using assms(1-4) by (simp add: snd_handleRequest)
qed

text \<open>
  Claim C3. After every tool the cursor is within the file, or 1 when the file is empty.
  On an empty file \<^verbatim>\<open>page_down\<close> breaks this: the file has 0 lines, and from the initial
  state the tool stores \<open>min 0 (1 + 30) = 0\<close> as the cursor, where \<^verbatim>\<open>go_to_line\<close> and
  \<^verbatim>\<open>page_up\<close> store 1.
\<close>

theorem page_down_empty_file_cursor:
  "getTotalLines emptyFile ''f'' = Inr 0
   \<and> map_option currentLine
        (snd (handleRequest fragmentRegExp emptyFile (PageDown ''f'') Map.empty) ''f'') = Some 0
   \<and> map_option currentLine
        (snd (handleRequest fragmentRegExp emptyFile (PageUp ''f'') Map.empty) ''f'') = Some 1
   \<and> map_option currentLine
        (snd (handleRequest fragmentRegExp emptyFile (GoToLine ''f'' 0 None) Map.empty) ''f'') = Some 1"
  by code_simp

subsection \<open>Literal patterns and letter case\<close>

text \<open>
  Escaping and reading back give the pattern again, so the constructor of the examples
  compiles every escaped pattern to the literal pattern.
\<close>

lemma escapeRegExp_Cons:
  "escapeRegExp (c # cs) = (if c \<in> set metachars then [CHR 0x5C, c] else [c]) @ escapeRegExp cs"
  by (simp add: escapeRegExp_def)

lemma unescape_escapeRegExp: "unescape (escapeRegExp p) = Some p"
proof (induction p)
  case Nil
  then show ?case by (simp add: escapeRegExp_def)
next
  case (Cons c cs)
  show ?case
  proof (cases "c \<in> set metachars")
    case True
    then show ?thesis
      using Cons.IH by (simp add: escapeRegExp_Cons)
  next
    case False
    then have nb: "c \<noteq> CHR 0x5C"
      by (auto simp add: metachars_def)
    show ?thesis
    proof (cases "escapeRegExp cs")
      case Nil
      then have "cs = []"
        using Cons.IH by simp
      then show ?thesis
        using False Nil by (simp add: escapeRegExp_Cons)
    next
      case (Cons d ds)
      then show ?thesis
        using Cons.IH False nb by (simp add: escapeRegExp_Cons)
    qed
  qed
qed

lemma fragmentRegExp_escaped:
  "fragmentRegExp (escapeRegExp p) flags = Inr (literalRegExp flags p)"
  by (simp add: fragmentRegExp_def unescape_escapeRegExp)

text \<open>
  The test of a literal pattern built with the flags \<^verbatim>\<open>gi\<close>: from index 0 it succeeds
  exactly on the strings that contain the pattern up to letter case, and from any index
  it succeeds only on such strings.
\<close>

lemma test_literal_hit:
  "containsIgnoringCase p s \<Longrightarrow> fst (test (literalRegExp ''gi'' p) 0 s)"
  by (auto simp add: test_def literalRegExp_def containsIgnoringCase_def find_None_iff
        split: option.splits)

lemma find_Some_member: "List.find P xs = Some x \<Longrightarrow> P x \<and> x \<in> set xs"
  by (induction xs) (auto split: if_splits)

lemma test_literal_only_containing:
  assumes "fst (test (literalRegExp ''gi'' p) li s)"
  shows "containsIgnoringCase p s"
proof -
  obtain i where "List.find (matchesAt True p s) [li ..< Suc (length s)] = Some i"
    using assms by (auto simp add: test_def literalRegExp_def split: if_splits option.splits)
  then have "matchesAt True p s i \<and> i \<in> set [li ..< Suc (length s)]"
    by (rule find_Some_member)
  then have "matchesAt True p s i \<and> i \<in> set [0 ..< Suc (length s)]"
    by (simp del: upt_Suc)
  then show ?thesis
    unfolding containsIgnoringCase_def by blast
qed

text \<open>
  Claim C10. In literal mode a line that contains the pattern in another letter case is
  reported as a match. The source asks for it: the escaped pattern is compiled with the
  flags \<^verbatim>\<open>gi\<close>, the test of \<^verbatim>\<open>AB\<close> against the literal \<^verbatim>\<open>ab\<close> succeeds from index 0 (with the
  flag \<^verbatim>\<open>g\<close> alone it would not), and in the file of the one line \<^verbatim>\<open>AB\<close> that line is
  recorded. In the file of the two lines \<^verbatim>\<open>ab\<close> and \<^verbatim>\<open>AB\<close>, though, the test of line 1
  leaves \<^verbatim>\<open>lastIndex\<close> at 2, the test of line 2 searches from index 2 and fails, and the
  line \<^verbatim>\<open>AB\<close> is not recorded.
\<close>

theorem upper_case_line_not_recorded:
  "readFileLines lowerThenUpper ''f'' = Inr [''ab'', ''AB'']
   \<and> containsIgnoringCase ''ab'' ''AB''
   \<and> test (literalRegExp ''gi'' ''ab'') 0 ''AB'' = (True, 2)
   \<and> test (literalRegExp ''g'' ''ab'') 0 ''AB'' = (False, 0)
   \<and> map_option searchMatches
        (snd (handleRequest fragmentRegExp upperLine (Find ''f'' ''ab'' None) Map.empty) ''f'')
       = Some [SearchMatch 1 ''AB'']
   \<and> test (literalRegExp ''gi'' ''ab'') 2 ''AB'' = (False, 0)
   \<and> map_option searchMatches
        (snd (handleRequest fragmentRegExp lowerThenUpper (Find ''f'' ''ab'' None) Map.empty) ''f'')
       = Some [SearchMatch 1 ''ab'']"
  by code_simp

end
